theory Spec2Isabelle
  imports Main
begin

section \<open>The entry point of sqlsmith (sqlsmith.cc)\<close>

text \<open>
  The only source file is the driver: it parses the command line, loads the schema,
  builds the list of loggers, seeds the random generator and then either prints
  statements (dry run) or generates, executes and classifies them in the run loop.
  Everything the driver calls (schema, statement factory, loggers, the device under
  test, the clock) lives in files that are not part of the sources; these
  collaborators are parameters of the model (the record \<open>env\<close> below).
\<close>

subsection \<open>Exceptions and control flow\<close>

text \<open>
  The driver distinguishes exceptions only by the handlers they match:
  \<^verbatim>\<open>catch (const dut::failure &e)\<close> (line 222), \<^verbatim>\<open>catch (runtime_error &e)\<close> (line 226),
  \<^verbatim>\<open>catch (const dut::broken &e)\<close> (line 237) and \<^verbatim>\<open>catch (const exception &e)\<close>
  (line 245). The cast on line 230 shows that a \<^verbatim>\<open>dut::broken\<close> is a \<^verbatim>\<open>dut::failure\<close>.
  The string is what \<^verbatim>\<open>what()\<close> returns.
\<close>

datatype exn =
    Broken string          \<comment> \<open>\<^verbatim>\<open>dut::broken\<close>\<close>
  | Failure string         \<comment> \<open>a \<^verbatim>\<open>dut::failure\<close> that is not a \<^verbatim>\<open>dut::broken\<close>\<close>
  | RuntimeError string    \<comment> \<open>\<^verbatim>\<open>std::runtime_error\<close> and its subclasses\<close>
  | StdException string    \<comment> \<open>any other \<^verbatim>\<open>std::exception\<close> (\<^verbatim>\<open>logic_error\<close>, \<^verbatim>\<open>bad_alloc\<close>, ...)\<close>
  | Foreign                \<comment> \<open>an exception of a type outside \<^verbatim>\<open>std::exception\<close>\<close>

fun what :: "exn \<Rightarrow> string" where
  "what (Broken m) = m"
| "what (Failure m) = m"
| "what (RuntimeError m) = m"
| "what (StdException m) = m"
| "what Foreign = []"

fun is_failure :: "exn \<Rightarrow> bool" where
  "is_failure (Broken m) = True"
| "is_failure (Failure m) = True"
| "is_failure e = False"

fun is_broken :: "exn \<Rightarrow> bool" where
  "is_broken (Broken m) = True"
| "is_broken e = False"

fun is_runtime_error :: "exn \<Rightarrow> bool" where
  "is_runtime_error (RuntimeError m) = True"
| "is_runtime_error e = False"

text \<open>
  \<^verbatim>\<open>dut.hh\<close> is not among the sources; \<^verbatim>\<open>dut::failure\<close> is taken to derive from
  \<^verbatim>\<open>std::exception\<close>. This only matters for a \<^verbatim>\<open>dut::failure\<close> that is thrown outside
  the inner \<^verbatim>\<open>try\<close> block and is not a \<^verbatim>\<open>dut::broken\<close> caught on line 237: it then ends
  \<^verbatim>\<open>main\<close> with status 1 rather than without a handler.
\<close>

fun is_std_exception :: "exn \<Rightarrow> bool" where
  "is_std_exception Foreign = False"
| "is_std_exception e = True"

text \<open>
  How a piece of the driver completes: it falls through to the next statement
  (\<open>Next\<close>), executes \<^verbatim>\<open>return c\<close> (\<open>Return\<close>), throws (\<open>Throw\<close>), overflows the signed
  counter \<^verbatim>\<open>queries_generated\<close> (\<open>Undefined\<close>: the behaviour of the program is undefined
  from there on), is still looping when the fuel of the model is used up (\<open>Running\<close>), or
  is ended by the default action of a signal (\<open>Killed\<close>: the process has no exit status).
  \<^verbatim>\<open>exit(c)\<close> ends the process with the status that \<^verbatim>\<open>return c\<close> in \<^verbatim>\<open>main\<close> gives it, and is
  \<open>Return c\<close> as well.
\<close>

datatype flow = Next | Return int | Throw exn | Undefined | Running | Killed

subsection \<open>\<^verbatim>\<open>std::stoi\<close> and \<^verbatim>\<open>std::stol\<close>\<close>

text \<open>
  Both call \<^verbatim>\<open>strtol\<close> with base 10: leading white space is skipped, an optional sign is
  read, then the longest run of decimal digits; what follows is ignored. Without a digit
  they throw \<^verbatim>\<open>std::invalid_argument\<close>, outside the range of the result type
  \<^verbatim>\<open>std::out_of_range\<close>; both are subclasses of \<^verbatim>\<open>std::logic_error\<close>. \<^verbatim>\<open>long\<close> has 64
  bits and \<^verbatim>\<open>int\<close> 32 bits (LP64).
\<close>

definition isspace :: "char \<Rightarrow> bool" where
  "isspace c = (c \<in> set [CHR '' '', CHR 0x09, CHR 0x0A, CHR 0x0B, CHR 0x0C, CHR 0x0D])"

definition isdigit :: "char \<Rightarrow> bool" where
  "isdigit c = (c \<in> set ''0123456789'')"

definition digit_val :: "char \<Rightarrow> int" where
  "digit_val c = int (of_char c) - 48"

definition strtol10 :: "string \<Rightarrow> int option" where
  "strtol10 s =
     (let s1 = dropWhile isspace s;
          neg = (take 1 s1 = ''-'');
          s2 = (if take 1 s1 = ''-'' \<or> take 1 s1 = ''+'' then drop 1 s1 else s1);
          ds = takeWhile isdigit s2;
          v = foldl (\<lambda>a c. 10 * a + digit_val c) 0 ds
      in if ds = [] then None else Some (if neg then - v else v))"

definition LONG_MAX :: int where "LONG_MAX = 2 ^ 63 - 1"
definition LONG_MIN :: int where "LONG_MIN = - (2 ^ 63)"
definition INT_MAX :: int where "INT_MAX = 2 ^ 31 - 1"
definition INT_MIN :: int where "INT_MIN = - (2 ^ 31)"

definition stol :: "string \<Rightarrow> exn + int" where
  "stol s =
     (case strtol10 s of
        None \<Rightarrow> Inl (StdException ''stol'')
      | Some v \<Rightarrow> if v < LONG_MIN \<or> LONG_MAX < v then Inl (StdException ''stol'') else Inr v)"

definition stoi :: "string \<Rightarrow> exn + int" where
  "stoi s =
     (case strtol10 s of
        None \<Rightarrow> Inl (StdException ''stoi'')
      | Some v \<Rightarrow> if v < INT_MIN \<or> INT_MAX < v then Inl (StdException ''stoi'') else Inr v)"

subsection \<open>The command line (lines 63--75)\<close>

text \<open>
  \<^verbatim>\<open>options\<close> is a \<^verbatim>\<open>map<string,string>\<close>. An argument is accepted when the whole of it
  matches \<^verbatim>\<open>--(help|log-to|...|max-queries)(?:=((?:.|\n)*))?\<close>: two dashes, one of the
  names, and optionally \<^verbatim>\<open>=\<close> and a value. No name contains \<^verbatim>\<open>=\<close>, so the name is the text
  up to the first \<^verbatim>\<open>=\<close>. In the ECMAScript grammar of \<^verbatim>\<open>std::regex\<close> the dot matches no
  line terminator; the pattern adds the line feed, so a value with a carriage return is
  not matched. A missing value is the empty string.
\<close>

type_synonym options = "string \<rightharpoonup> string"

definition option_names :: "string list" where
  "option_names = [''help'', ''log-to'', ''verbose'', ''target'', ''sqlite'', ''monetdb'',
     ''version'', ''dump-all-graphs'', ''seed'', ''dry-run'', ''max-queries'']"

definition regex_match_opt :: "string \<Rightarrow> (string \<times> string) option" where
  "regex_match_opt s =
     (let r = drop 2 s;
          name = takeWhile (\<lambda>c. c \<noteq> CHR ''='') r;
          val = drop 1 (dropWhile (\<lambda>c. c \<noteq> CHR ''='') r)
      in if take 2 s = ''--'' \<and> name \<in> set option_names \<and> CHR 0x0D \<notin> set val
         then Some (name, val) else None)"

text \<open>\<^verbatim>\<open>options[k]\<close> on a missing key yields the empty string.\<close>

definition opt :: "options \<Rightarrow> string \<Rightarrow> string" where
  "opt options k = (case options k of None \<Rightarrow> [] | Some v \<Rightarrow> v)"

definition count :: "options \<Rightarrow> string \<Rightarrow> bool" where
  "count options k = (options k \<noteq> None)"

subsection \<open>Collaborators, events and the state of the driver\<close>

datatype backend = Sqlite | Monetdb | Postgres

datatype logger = Impedance_feedback | Pqxx_logger | Cerr_logger | Ast_logger

datatype logfile = Qrylog | Allqueries | Qrycur

text \<open>
  The collaborators act on one world \<open>'w\<close> (the database servers, the global random
  generator, the scope, the objects behind the loggers and the device under test); \<open>'p\<close>
  is the type of a generated syntax tree. A call returns the exception it throws, if any,
  and the world it leaves: any of them may throw, and any of them may change what the
  others see.
\<close>

type_synonym 'w call = "'w \<Rightarrow> exn option \<times> 'w"

text \<open>
  Modelled from the spec: \<^verbatim>\<open>prod::out\<close> is declared in grammar.hh, which is not among the
  sources; the specification has rendering as a pure traversal of the tree that never
  fails and is deterministic, so the field \<open>out\<close> is a function of the tree alone.
\<close>

record ('w, 'p) env =
  package_name :: string                             \<comment> \<open>\<^verbatim>\<open>PACKAGE_NAME\<close> of config.h\<close>
  gitrev :: string                                   \<comment> \<open>\<^verbatim>\<open>GITREV\<close> of gitrev.h\<close>
  have_libsqlite3 :: bool                            \<comment> \<open>\<^verbatim>\<open>HAVE_LIBSQLITE3\<close> of config.h\<close>
  getpid :: int
  schema_new :: "backend \<Rightarrow> string \<Rightarrow> 'w call"       \<comment> \<open>constructors of the schema classes\<close>
  fill_scope :: "'w call"
  logger_new :: "logger \<Rightarrow> string list \<Rightarrow> 'w call"   \<comment> \<open>constructors of the loggers\<close>
  rng_seed :: "int \<Rightarrow> 'w \<Rightarrow> 'w"                      \<comment> \<open>\<^verbatim>\<open>smith::rng.seed\<close>\<close>
  statement_factory :: "'w \<Rightarrow> (exn + 'p) \<times> 'w"
  out :: "'p \<Rightarrow> string"
  generated :: "logger \<Rightarrow> 'p \<Rightarrow> 'w call"
  executed :: "logger \<Rightarrow> 'p \<Rightarrow> 'w call"
  error :: "logger \<Rightarrow> 'p \<Rightarrow> exn \<Rightarrow> 'w call"
  report :: "'w call"                                \<comment> \<open>\<^verbatim>\<open>cerr_logger::report\<close>\<close>
  dut_new :: "backend \<Rightarrow> string \<Rightarrow> 'w call"          \<comment> \<open>constructors of the dut classes\<close>
  test :: "string \<Rightarrow> 'w call"                        \<comment> \<open>\<^verbatim>\<open>dut_base::test\<close>\<close>
  clock :: "'w \<Rightarrow> int \<times> 'w"

text \<open>
  What the driver does to the outside, in order. \<open>Statement\<close> records a tree returned by
  the statement factory; \<open>Timing\<close> is the line \<^verbatim>\<open>-- TIMING ... seconds\<close> of ssquery.log and
  carries the difference of the two clock readings in ticks (the driver divides it by
  \<^verbatim>\<open>CLOCKS_PER_SEC\<close> in floating point to print it).
\<close>

datatype 'p event =
    Cerr string
  | Cout string
  | Schema_new backend string
  | Fill_scope
  | Logger_new logger "string list"
  | Signal_SIGINT
  | is_Rng_seed: Rng_seed int
  | is_Statement: Statement 'p
  | is_Generated: Generated logger 'p
  | is_Dut_new: Dut_new backend string
  | Open_file logfile
  | Write_file logfile string
  | is_Test: Test string
  | is_Executed: Executed logger 'p
  | is_Error: Error logger 'p exn
  | is_Log_failed: Log_failed logger string
  | is_Timing: Timing int
  | is_Report: Report
  | is_Sleep: Sleep nat

record ('w, 'p) state =
  world :: 'w
  trace :: "'p event list"
  queries_generated :: int
  loggers :: "logger list"
  global_cerr_logger :: bool     \<comment> \<open>whether the pointer is set\<close>

definition init_state :: "'w \<Rightarrow> ('w, 'p) state" where
  "init_state w = \<lparr>world = w, trace = [], queries_generated = 0, loggers = [],
     global_cerr_logger = False\<rparr>"

definition emit :: "'p event \<Rightarrow> ('w, 'p) state \<Rightarrow> ('w, 'p) state" where
  "emit ev s = s\<lparr>trace := trace s @ [ev]\<rparr>"

definition call :: "'w call \<Rightarrow> ('w, 'p) state \<Rightarrow> exn option \<times> ('w, 'p) state" where
  "call f s = (case f (world s) of (r, w) \<Rightarrow> (r, s\<lparr>world := w\<rparr>))"

text \<open>A call that ends the enclosing block when it throws.\<close>

definition try_call :: "'w call \<Rightarrow> ('w, 'p) state \<Rightarrow> flow \<times> ('w, 'p) state" where
  "try_call f s = (case call f s of (None, s') \<Rightarrow> (Next, s') | (Some e, s') \<Rightarrow> (Throw e, s'))"

text \<open>Sequencing: the second part runs only when the first falls through.\<close>

definition seq :: "flow \<times> 's \<Rightarrow> ('s \<Rightarrow> flow \<times> 's) \<Rightarrow> flow \<times> 's" where
  "seq r f = (case r of (Next, s) \<Rightarrow> f s | _ \<Rightarrow> r)"

definition endl :: string where
  "endl = [CHR 0x0A]"

subsection \<open>Notifying the loggers\<close>

text \<open>
  \<^verbatim>\<open>for (auto l : loggers) l->generated(*gen);\<close> (lines 152 and 198) and the same loop
  for \<^verbatim>\<open>executed\<close> (line 216): the first hook that throws ends the loop.
\<close>

fun notify_generated ::
  "('w, 'p) env \<Rightarrow> logger list \<Rightarrow> 'p \<Rightarrow> ('w, 'p) state \<Rightarrow> exn option \<times> ('w, 'p) state" where
  "notify_generated E [] gen s = (None, s)"
| "notify_generated E (l # ls) gen s =
     (case call (generated E l gen) (emit (Generated l gen) s) of
        (Some e, s') \<Rightarrow> (Some e, s')
      | (None, s') \<Rightarrow> notify_generated E ls gen s')"

fun notify_executed ::
  "('w, 'p) env \<Rightarrow> logger list \<Rightarrow> 'p \<Rightarrow> ('w, 'p) state \<Rightarrow> exn option \<times> ('w, 'p) state" where
  "notify_executed E [] gen s = (None, s)"
| "notify_executed E (l # ls) gen s =
     (case call (executed E l gen) (emit (Executed l gen) s) of
        (Some e, s') \<Rightarrow> (Some e, s')
      | (None, s') \<Rightarrow> notify_executed E ls gen s')"

text \<open>
  Lines 223--229: each \<^verbatim>\<open>error\<close> hook runs in its own \<^verbatim>\<open>try\<close>; a \<^verbatim>\<open>runtime_error\<close> is
  printed on \<^verbatim>\<open>cerr\<close> with the type of the logger and the loop goes on; any other
  exception leaves the loop.
\<close>

fun notify_error ::
  "('w, 'p) env \<Rightarrow> logger list \<Rightarrow> 'p \<Rightarrow> exn \<Rightarrow> ('w, 'p) state \<Rightarrow> exn option \<times> ('w, 'p) state" where
  "notify_error E [] gen e s = (None, s)"
| "notify_error E (l # ls) gen e s =
     (case call (error E l gen e) (emit (Error l gen e) s) of
        (None, s') \<Rightarrow> notify_error E ls gen e s'
      | (Some x, s') \<Rightarrow>
          if is_runtime_error x then notify_error E ls gen e (emit (Log_failed l (what x)) s')
          else (Some x, s'))"

subsection \<open>One pass of the inner loop (lines 187--234)\<close>

text \<open>
  Lines 187--192. The counter is a \<^verbatim>\<open>long\<close>; it is incremented only when the option
  is given. Incrementing \<^verbatim>\<open>LONG_MAX\<close> is undefined behaviour.
\<close>

definition check_ceiling ::
  "('w, 'p) env \<Rightarrow> options \<Rightarrow> ('w, 'p) state \<Rightarrow> flow \<times> ('w, 'p) state" where
  "check_ceiling E options s =
     (if count options ''max-queries'' then
        if queries_generated s = LONG_MAX then (Undefined, s)
        else
          let s1 = s\<lparr>queries_generated := queries_generated s + 1\<rparr> in
          case stol (opt options ''max-queries'') of
            Inl e \<Rightarrow> (Throw e, s1)
          | Inr n \<Rightarrow>
              if queries_generated s1 > n then
                seq (if global_cerr_logger s1 then try_call (report E) (emit Report s1)
                     else (Next, s1))
                  (\<lambda>s2. (Return 0, s2))
              else (Next, s1)
      else (Next, s))"

text \<open>Lines 196--206: build a tree, tell the loggers, render it and append it to allqueries.log.\<close>

definition generate ::
  "('w, 'p) env \<Rightarrow> ('w, 'p) state \<Rightarrow> (exn + 'p) \<times> ('w, 'p) state" where
  "generate E s =
     (case statement_factory E (world s) of
        (Inl e, w) \<Rightarrow> (Inl e, s\<lparr>world := w\<rparr>)
      | (Inr gen, w) \<Rightarrow>
          (case notify_generated E (loggers s) gen (emit (Statement gen) (s\<lparr>world := w\<rparr>)) of
             (Some e, s') \<Rightarrow> (Inl e, s')
           | (None, s') \<Rightarrow> (Inr gen, emit (Write_file Allqueries (out E gen @ '';'' @ endl)) s')))"

text \<open>Lines 211--221, the body of the inner \<^verbatim>\<open>try\<close>.\<close>

definition try_block ::
  "('w, 'p) env \<Rightarrow> 'p \<Rightarrow> ('w, 'p) state \<Rightarrow> exn option \<times> ('w, 'p) state" where
  "try_block E gen s =
     (let sql = out E gen;
          s1 = emit (Write_file Qrycur (sql @ '';'' @ endl)) (emit (Open_file Qrycur) s)
      in case clock E (world s1) of (starttime, w1) \<Rightarrow>
         (case call (test E sql) (emit (Test sql) (s1\<lparr>world := w1\<rparr>)) of
            (Some e, s2) \<Rightarrow> (Some e, s2)
          | (None, s2) \<Rightarrow>
              (case notify_executed E (loggers s2) gen s2 of
                 (Some e, s3) \<Rightarrow> (Some e, s3)
               | (None, s3) \<Rightarrow>
                   (case clock E (world s3) of (now, w3) \<Rightarrow>
                      (None, emit (Write_file Qrylog (sql @ '';'' @ endl))
                               (emit (Timing (now - starttime)) (s3\<lparr>world := w3\<rparr>)))))))"

text \<open>
  Lines 210--234: the \<^verbatim>\<open>try\<close> with its handler for \<^verbatim>\<open>dut::failure\<close>. The handler tells
  the loggers and throws a \<^verbatim>\<open>dut::broken\<close> again; any other failure is dropped.
\<close>

definition execute ::
  "('w, 'p) env \<Rightarrow> 'p \<Rightarrow> ('w, 'p) state \<Rightarrow> flow \<times> ('w, 'p) state" where
  "execute E gen s =
     (case try_block E gen s of
        (None, s1) \<Rightarrow> (Next, s1)
      | (Some e, s1) \<Rightarrow>
          if is_failure e then
            (case notify_error E (loggers s1) gen e s1 of
               (Some x, s2) \<Rightarrow> (Throw x, s2)
             | (None, s2) \<Rightarrow> if is_broken e then (Throw e, s2) else (Next, s2))
          else (Throw e, s1))"

definition iteration ::
  "('w, 'p) env \<Rightarrow> options \<Rightarrow> ('w, 'p) state \<Rightarrow> flow \<times> ('w, 'p) state" where
  "iteration E options s =
     seq (check_ceiling E options s)
       (\<lambda>s1. case generate E s1 of
                (Inl e, s2) \<Rightarrow> (Throw e, s2)
              | (Inr gen, s2) \<Rightarrow> execute E gen s2)"

subsection \<open>The run loop (lines 183--241)\<close>

text \<open>
  The inner \<^verbatim>\<open>while (1)\<close> repeats the pass; a \<^verbatim>\<open>dut::broken\<close> leaving it is caught by the
  outer loop, which sleeps for 1000 milliseconds and enters the inner loop again. Any
  other exception leaves both loops. The loops have no exit of their own, so the
  model counts passes: with no pass left the result is \<open>Running\<close>.
\<close>

fun run_loop ::
  "nat \<Rightarrow> ('w, 'p) env \<Rightarrow> options \<Rightarrow> ('w, 'p) state \<Rightarrow> flow \<times> ('w, 'p) state" where
  "run_loop 0 E options s = (Running, s)"
| "run_loop (Suc k) E options s =
     (case iteration E options s of
        (Next, s') \<Rightarrow> run_loop k E options s'
      | (Throw e, s') \<Rightarrow>
          if is_broken e then run_loop k E options (emit (Sleep 1000) s')
          else (Throw e, s')
      | r \<Rightarrow> r)"

subsection \<open>The dry run (lines 148--161)\<close>

text \<open>
  The statement is printed, the loggers are told, the counter is incremented and only
  then compared with the ceiling (\<^verbatim>\<open>>=\<close>), once per pass.
\<close>

definition dry_iteration ::
  "('w, 'p) env \<Rightarrow> options \<Rightarrow> ('w, 'p) state \<Rightarrow> flow \<times> ('w, 'p) state" where
  "dry_iteration E options s =
     (case statement_factory E (world s) of
        (Inl e, w) \<Rightarrow> (Throw e, s\<lparr>world := w\<rparr>)
      | (Inr gen, w) \<Rightarrow>
          (case notify_generated E (loggers s) gen
                  (emit (Cout (out E gen)) (emit (Statement gen) (s\<lparr>world := w\<rparr>))) of
             (Some e, s1) \<Rightarrow> (Throw e, s1)
           | (None, s1) \<Rightarrow>
               let s2 = emit (Cout ('';'' @ endl)) s1 in
               if queries_generated s2 = LONG_MAX then (Undefined, s2)
               else
                 let s3 = s2\<lparr>queries_generated := queries_generated s2 + 1\<rparr> in
                 if count options ''max-queries'' then
                   (case stol (opt options ''max-queries'') of
                      Inl e \<Rightarrow> (Throw e, s3)
                    | Inr n \<Rightarrow> if queries_generated s3 \<ge> n then (Return 0, s3) else (Next, s3))
                 else (Next, s3)))"

fun dry_run ::
  "nat \<Rightarrow> ('w, 'p) env \<Rightarrow> options \<Rightarrow> ('w, 'p) state \<Rightarrow> flow \<times> ('w, 'p) state" where
  "dry_run 0 E options s = (Running, s)"
| "dry_run (Suc k) E options s =
     (case dry_iteration E options s of
        (Next, s') \<Rightarrow> dry_run k E options s'
      | r \<Rightarrow> r)"

subsection \<open>Start-up (lines 99--146 and 163--181)\<close>

definition load_schema ::
  "('w, 'p) env \<Rightarrow> options \<Rightarrow> ('w, 'p) state \<Rightarrow> flow \<times> ('w, 'p) state" where
  "load_schema E options s =
     (if count options ''sqlite'' then
        if have_libsqlite3 E then
          try_call (schema_new E Sqlite (opt options ''sqlite''))
            (emit (Schema_new Sqlite (opt options ''sqlite''))
               (emit (Cout (''=====: '' @ opt options ''sqlite'' @ '' :======'' @ endl)) s))
        else
          (Return 1, emit (Cerr (''Sorry, '' @ package_name E
             @ '' was compiled without SQLite support.'' @ endl)) s)
      else if count options ''monetdb'' then
        try_call (schema_new E Monetdb (opt options ''monetdb''))
          (emit (Schema_new Monetdb (opt options ''monetdb''))
             (emit (Cout (''=====: '' @ opt options ''monetdb'' @ '' :======'' @ endl)) s))
      else
        try_call (schema_new E Postgres (opt options ''target''))
          (emit (Schema_new Postgres (opt options ''target''))
             (emit (Cout (''=====: '' @ opt options ''target'' @ '' :======'' @ endl)) s)))"

definition add_logger ::
  "('w, 'p) env \<Rightarrow> logger \<Rightarrow> string list \<Rightarrow> ('w, 'p) state \<Rightarrow> flow \<times> ('w, 'p) state" where
  "add_logger E l args s =
     seq (try_call (logger_new E l args) (emit (Logger_new l args) s))
       (\<lambda>s'. (Next, s'\<lparr>loggers := loggers s' @ [l]\<rparr>))"

text \<open>
  Lines 127--144. With \<^verbatim>\<open>--verbose\<close> the global pointer is set after the logger is
  built and before it is pushed, and the handler for \<^verbatim>\<open>SIGINT\<close> is installed.
\<close>

definition make_loggers ::
  "('w, 'p) env \<Rightarrow> options \<Rightarrow> ('w, 'p) state \<Rightarrow> flow \<times> ('w, 'p) state" where
  "make_loggers E options s =
     seq (add_logger E Impedance_feedback [] s) (\<lambda>s1.
     seq (if count options ''log-to'' then
            add_logger E Pqxx_logger
              [if count options ''sqlite'' then opt options ''sqlite'' else opt options ''target'',
               opt options ''log-to''] s1
          else (Next, s1)) (\<lambda>s2.
     seq (if count options ''verbose'' then
            seq (try_call (logger_new E Cerr_logger []) (emit (Logger_new Cerr_logger []) s2))
              (\<lambda>s'. (Next, emit Signal_SIGINT
                       (s'\<lparr>loggers := loggers s' @ [Cerr_logger], global_cerr_logger := True\<rparr>)))
          else (Next, s2)) (\<lambda>s3.
     if count options ''dump-all-graphs'' then add_logger E Ast_logger [] s3
     else (Next, s3))))"

text \<open>Line 146.\<close>

definition seed_rng ::
  "('w, 'p) env \<Rightarrow> options \<Rightarrow> ('w, 'p) state \<Rightarrow> flow \<times> ('w, 'p) state" where
  "seed_rng E options s =
     (if count options ''seed'' then
        (case stoi (opt options ''seed'') of
           Inl e \<Rightarrow> (Throw e, s)
         | Inr k \<Rightarrow> (Next, emit (Rng_seed k) (s\<lparr>world := rng_seed E k (world s)\<rparr>)))
      else (Next, emit (Rng_seed (getpid E)) (s\<lparr>world := rng_seed E (getpid E) (world s)\<rparr>)))"

text \<open>Lines 163--178.\<close>

definition make_dut ::
  "('w, 'p) env \<Rightarrow> options \<Rightarrow> ('w, 'p) state \<Rightarrow> flow \<times> ('w, 'p) state" where
  "make_dut E options s =
     (if count options ''sqlite'' then
        if have_libsqlite3 E then
          try_call (dut_new E Sqlite (opt options ''sqlite''))
            (emit (Dut_new Sqlite (opt options ''sqlite'')) s)
        else
          (Return 1, emit (Cerr (''Sorry, '' @ package_name E
             @ '' was compiled without SQLite support.'' @ endl)) s)
      else if count options ''monetdb'' then
        try_call (dut_new E Monetdb (opt options ''monetdb''))
          (emit (Dut_new Monetdb (opt options ''monetdb'')) s)
      else
        try_call (dut_new E Postgres (opt options ''target''))
          (emit (Dut_new Postgres (opt options ''target'')) s))"

subsection \<open>\<^verbatim>\<open>main\<close>\<close>

text \<open>Lines 99--144: schema, scope and loggers.\<close>

definition prologue ::
  "('w, 'p) env \<Rightarrow> options \<Rightarrow> ('w, 'p) state \<Rightarrow> flow \<times> ('w, 'p) state" where
  "prologue E options s =
     seq (load_schema E options s) (\<lambda>s1.
     seq (try_call (fill_scope E) (emit Fill_scope (s1\<lparr>queries_generated := 0\<rparr>))) (\<lambda>s2.
     make_loggers E options s2))"

text \<open>Lines 99--146: the same, and then the seed.\<close>

definition startup ::
  "('w, 'p) env \<Rightarrow> options \<Rightarrow> ('w, 'p) state \<Rightarrow> flow \<times> ('w, 'p) state" where
  "startup E options s = seq (prologue E options s) (\<lambda>s3. seed_rng E options s3)"

text \<open>Lines 99--241, the body of the outer \<^verbatim>\<open>try\<close>.\<close>

definition main_body ::
  "nat \<Rightarrow> ('w, 'p) env \<Rightarrow> options \<Rightarrow> ('w, 'p) state \<Rightarrow> flow \<times> ('w, 'p) state" where
  "main_body fuel E options s =
     seq (startup E options s) (\<lambda>s4.
     if count options ''dry-run'' then dry_run fuel E options s4
     else
       seq (make_dut E options s4) (\<lambda>s5.
         run_loop fuel E options (emit (Open_file Allqueries) (emit (Open_file Qrylog) s5))))"

text \<open>
  Lines 245--248: an exception derived from \<^verbatim>\<open>std::exception\<close> is printed and \<^verbatim>\<open>main\<close>
  returns 1; any other exception leaves \<^verbatim>\<open>main\<close>.
\<close>

definition catch_exception :: "flow \<times> ('w, 'p) state \<Rightarrow> flow \<times> ('w, 'p) state" where
  "catch_exception r =
     (case r of
        (Throw e, s) \<Rightarrow>
          if is_std_exception e then (Return 1, emit (Cerr (what e @ endl)) s) else (Throw e, s)
      | _ \<Rightarrow> r)"

text \<open>Lines 66--75: a later argument overwrites an earlier one with the same name.\<close>

fun parse_options ::
  "string list \<Rightarrow> options \<Rightarrow> ('w, 'p) state \<Rightarrow> options \<times> ('w, 'p) state" where
  "parse_options [] options s = (options, s)"
| "parse_options (a # as) options s =
     (case regex_match_opt a of
        Some (name, val) \<Rightarrow> parse_options as (options(name \<mapsto> val)) s
      | None \<Rightarrow>
          parse_options as (options(''help'' \<mapsto> []))
            (emit (Cerr (''Cannot parse option: '' @ a @ endl)) s))"

definition help_text :: "bool \<Rightarrow> string" where
  "help_text sqlite =
     ''    --target=connstr     postgres database to send queries to'' @ endl @
     (if sqlite then ''    --sqlite=URI         SQLite database to send queries to'' @ endl
      else []) @
     ''    --monetdb=connstr    monetdb database to send queries to'' @ endl @
     ''    --log-to=connstr     log errors to postgres database'' @ endl @
     ''    --seed=int           seed RNG with specified int instead of PID'' @ endl @
     ''    --dump-all-graphs    dump generated ASTs'' @ endl @
     ''    --dry-run            print queries instead of executing them'' @ endl @
     ''    --max-queries=long   terminate after generating this many queries'' @ endl @
     ''    --verbose            emit progress output'' @ endl @
     ''    --version            print version information and exit'' @ endl @
     ''    --help               print available command line options and exit'' @ endl"

text \<open>
  \<open>main fuel E argv w\<close> runs the program on the arguments after the program name in the
  world \<open>w\<close>, as long as no signal arrives. \<open>Return c\<close> is the exit status \<open>c\<close>; \<open>Throw e\<close> is an
  exception that no handler of \<^verbatim>\<open>main\<close> catches; \<open>Running\<close> is a process that has made \<open>fuel\<close>
  passes of its loop and is about to make the next one.
\<close>

definition main ::
  "nat \<Rightarrow> ('w, 'p) env \<Rightarrow> string list \<Rightarrow> 'w \<Rightarrow> flow \<times> ('w, 'p) state" where
  "main fuel E argv w =
     (case parse_options argv Map.empty
             (emit (Cerr (package_name E @ '' '' @ gitrev E @ endl)) (init_state w)) of
        (options, s) \<Rightarrow>
          if count options ''help'' then (Return 0, emit (Cerr (help_text (have_libsqlite3 E))) s)
          else if count options ''version'' then (Return 0, s)
          else catch_exception (main_body fuel E options s))"

subsection \<open>\<^verbatim>\<open>SIGINT\<close> (lines 48--57 and 140)\<close>

text \<open>
  \<^verbatim>\<open>cerr_log_handler\<close> prints a last report when the global pointer is set and ends the
  process with \<^verbatim>\<open>exit(1)\<close>, whatever the process was doing. C++ gives no meaning to an
  exception that leaves a signal handler.
\<close>

definition cerr_log_handler ::
  "('w, 'p) env \<Rightarrow> ('w, 'p) state \<Rightarrow> flow \<times> ('w, 'p) state" where
  "cerr_log_handler E s =
     (if global_cerr_logger s then
        (case call (report E) (emit Report s) of
           (None, s') \<Rightarrow> (Return 1, s')
         | (Some e, s') \<Rightarrow> (Undefined, s'))
      else (Return 1, s))"

text \<open>
  The signal is asynchronous. \<open>interrupted fuel E argv w\<close> is the run in which it arrives
  when the process has made \<open>fuel\<close> passes of its loop: a process that has ended before is
  not affected; one that has installed the handler (line 140, with \<^verbatim>\<open>--verbose\<close>) runs it;
  any other is ended by the default action of the signal.
\<close>

definition interrupted ::
  "nat \<Rightarrow> ('w, 'p) env \<Rightarrow> string list \<Rightarrow> 'w \<Rightarrow> flow \<times> ('w, 'p) state" where
  "interrupted fuel E argv w =
     (case main fuel E argv w of
        (Running, s) \<Rightarrow>
          if Signal_SIGINT \<in> set (trace s) then cerr_log_handler E s else (Killed, s)
      | r \<Rightarrow> r)"

section \<open>Properties of the run loop\<close>

subsection \<open>Vocabulary\<close>

text \<open>
  \<open>grows A s s'\<close>: the driver got from \<open>s\<close> to \<open>s'\<close> by appending events of the kind \<open>A\<close>
  to the trace, with the same loggers and the same global pointer.
\<close>

definition grows :: "('p event \<Rightarrow> bool) \<Rightarrow> ('w, 'p) state \<Rightarrow> ('w, 'p) state \<Rightarrow> bool" where
  "grows A s s' = (loggers s' = loggers s \<and> global_cerr_logger s' = global_cerr_logger s
     \<and> (\<exists>evs. trace s' = trace s @ evs \<and> list_all A evs))"

text \<open>What the loggers are told, and what is printed when telling them fails.\<close>

definition note_event :: "'p event \<Rightarrow> bool" where
  "note_event ev = (is_Generated ev \<or> is_Executed ev \<or> is_Error ev \<or> is_Log_failed ev)"

text \<open>The events of the two loops.\<close>

fun loop_event :: "'p event \<Rightarrow> bool" where
  "loop_event (Statement p) = True"
| "loop_event (Generated l p) = True"
| "loop_event (Cout t) = True"
| "loop_event (Open_file f) = True"
| "loop_event (Write_file f t) = True"
| "loop_event (Test q) = True"
| "loop_event (Executed l p) = True"
| "loop_event (Error l p e) = True"
| "loop_event (Log_failed l m) = True"
| "loop_event (Timing d) = True"
| "loop_event Report = True"
| "loop_event (Sleep n) = True"
| "loop_event ev = False"

text \<open>The events of start-up before the seeding.\<close>

fun startup_event :: "'p event \<Rightarrow> bool" where
  "startup_event (Cerr t) = True"
| "startup_event (Cout t) = True"
| "startup_event (Schema_new b c) = True"
| "startup_event Fill_scope = True"
| "startup_event (Logger_new l args) = True"
| "startup_event Signal_SIGINT = True"
| "startup_event ev = False"

text \<open>
  Events other than the two whose presence depends on how the loggers behave: the
  message about a failed \<^verbatim>\<open>error\<close> hook and the final report.
\<close>

definition visible :: "'p event \<Rightarrow> bool" where
  "visible ev = (\<not> is_Log_failed ev \<and> \<not> is_Report ev)"

text \<open>Assumptions about the collaborators, used as hypotheses.\<close>

definition factory_returns :: "('w, 'p) env \<Rightarrow> bool" where
  "factory_returns E = (\<forall>w. \<exists>gen. fst (statement_factory E w) = Inr gen)"

definition generated_returns :: "('w, 'p) env \<Rightarrow> logger list \<Rightarrow> bool" where
  "generated_returns E ls = (\<forall>l \<in> set ls. \<forall>gen w. fst (generated E l gen w) = None)"

definition executed_returns :: "('w, 'p) env \<Rightarrow> logger list \<Rightarrow> bool" where
  "executed_returns E ls = (\<forall>l \<in> set ls. \<forall>gen w. fst (executed E l gen w) = None)"

definition error_guarded :: "('w, 'p) env \<Rightarrow> logger list \<Rightarrow> bool" where
  "error_guarded E ls =
     (\<forall>l \<in> set ls. \<forall>gen e w x. fst (error E l gen e w) = Some x \<longrightarrow> is_runtime_error x)"

definition report_returns :: "('w, 'p) env \<Rightarrow> bool" where
  "report_returns E = (\<forall>w. fst (report E w) = None)"

definition test_succeeds :: "('w, 'p) env \<Rightarrow> bool" where
  "test_succeeds E = (\<forall>q w. fst (test E q w) = None)"

definition test_fails_only :: "('w, 'p) env \<Rightarrow> bool" where
  "test_fails_only E = (\<forall>q w x. fst (test E q w) = Some x \<longrightarrow> is_failure x)"

definition test_breaks :: "('w, 'p) env \<Rightarrow> bool" where
  "test_breaks E = (\<forall>q w. \<exists>m. fst (test E q w) = Some (Broken m))"

text \<open>
  The observers behave where they are needed: the \<^verbatim>\<open>generated\<close> hooks return, the
  \<^verbatim>\<open>executed\<close> hooks return if a test can succeed at all, and the \<^verbatim>\<open>error\<close> hooks throw at most
  a \<^verbatim>\<open>runtime_error\<close> if a test can fail at all.
\<close>

definition observers_behave :: "('w, 'p) env \<Rightarrow> logger list \<Rightarrow> bool" where
  "observers_behave E ls =
     (generated_returns E ls
      \<and> (test_breaks E \<or> executed_returns E ls)
      \<and> (test_succeeds E \<or> error_guarded E ls))"

text \<open>
  The events of one pass of the run loop for the tree \<open>gen\<close>, the outcome \<open>r\<close> of the
  test and the measured time \<open>d\<close>, when no hook throws.
\<close>

definition generate_events :: "('w, 'p) env \<Rightarrow> logger list \<Rightarrow> 'p \<Rightarrow> 'p event list" where
  "generate_events E ls gen =
     Statement gen # map (\<lambda>l. Generated l gen) ls
       @ [Write_file Allqueries (out E gen @ '';'' @ endl)]"

definition submit_events :: "('w, 'p) env \<Rightarrow> 'p \<Rightarrow> 'p event list" where
  "submit_events E gen =
     [Open_file Qrycur, Write_file Qrycur (out E gen @ '';'' @ endl), Test (out E gen)]"

fun outcome_events ::
  "('w, 'p) env \<Rightarrow> logger list \<Rightarrow> 'p \<Rightarrow> exn option \<Rightarrow> int \<Rightarrow> 'p event list" where
  "outcome_events E ls gen None d =
     map (\<lambda>l. Executed l gen) ls @ [Timing d, Write_file Qrylog (out E gen @ '';'' @ endl)]"
| "outcome_events E ls gen (Some e) d = map (\<lambda>l. Error l gen e) ls"

fun recover_events :: "exn option \<Rightarrow> 'p event list" where
  "recover_events None = []"
| "recover_events (Some e) = (if is_broken e then [Sleep 1000] else [])"

fun pass_events ::
  "('w, 'p) env \<Rightarrow> logger list \<Rightarrow> 'p \<times> exn option \<times> int \<Rightarrow> 'p event list" where
  "pass_events E ls (gen, r, d) =
     generate_events E ls gen @ submit_events E gen @ outcome_events E ls gen r d
       @ recover_events r"

text \<open>A pass whose outcome the device under test can produce for its statement.\<close>

definition possible :: "('w, 'p) env \<Rightarrow> 'p \<times> exn option \<times> int \<Rightarrow> bool" where
  "possible E p = (case p of (gen, r, d) \<Rightarrow> \<exists>w. fst (test E (out E gen) w) = r)"

text \<open>
  The world that the \<^verbatim>\<open>executed\<close> hooks of the loggers \<open>ls\<close> leave behind when they are
  called one after the other from the world \<open>w\<close> on, and the same for the \<^verbatim>\<open>error\<close> hooks.
\<close>

definition executed_world :: "('w, 'p) env \<Rightarrow> logger list \<Rightarrow> 'p \<Rightarrow> 'w \<Rightarrow> 'w" where
  "executed_world E ls gen w = foldl (\<lambda>w l. snd (executed E l gen w)) w ls"

definition error_world :: "('w, 'p) env \<Rightarrow> logger list \<Rightarrow> 'p \<Rightarrow> exn \<Rightarrow> 'w \<Rightarrow> 'w" where
  "error_world E ls gen e w = foldl (\<lambda>w l. snd (error E l gen e w)) w ls"

text \<open>
  What is to be seen when the loggers \<open>ls\<close> are told, from the world \<open>w\<close> on, that \<open>gen\<close>
  failed with \<open>e\<close>, and every failure of a hook is isolated: each logger is told once, in
  turn; when its hook throws, what the exception says is printed on \<^verbatim>\<open>cerr\<close> before the next
  logger is told.
\<close>

fun error_events ::
  "('w, 'p) env \<Rightarrow> logger list \<Rightarrow> 'p \<Rightarrow> exn \<Rightarrow> 'w \<Rightarrow> 'p event list" where
  "error_events E [] gen e w = []"
| "error_events E (l # ls) gen e w =
     Error l gen e
       # (case fst (error E l gen e w) of None \<Rightarrow> [] | Some x \<Rightarrow> [Log_failed l (what x)])
       @ error_events E ls gen e (snd (error E l gen e w))"

text \<open>The state of the driver after the generator has been seeded with \<open>k\<close> in the state \<open>s\<close>.\<close>

definition seeded :: "('w, 'p) env \<Rightarrow> int \<Rightarrow> ('w, 'p) state \<Rightarrow> ('w, 'p) state" where
  "seeded E k s = emit (Rng_seed k) (s\<lparr>world := rng_seed E k (world s)\<rparr>)"

text \<open>
  Two worlds that differ at most in the state of the random generator are related by
  \<open>R\<close> when the calls made before the seeding cannot tell them apart and seeding with \<open>k\<close>
  makes them equal.
\<close>

definition indifferent :: "('w \<Rightarrow> 'w \<Rightarrow> bool) \<Rightarrow> 'w call \<Rightarrow> bool" where
  "indifferent R f = (\<forall>w w'. R w w' \<longrightarrow> fst (f w) = fst (f w') \<and> R (snd (f w)) (snd (f w')))"

definition seed_resets :: "('w, 'p) env \<Rightarrow> ('w \<Rightarrow> 'w \<Rightarrow> bool) \<Rightarrow> int \<Rightarrow> bool" where
  "seed_resets E R k =
     ((\<forall>b c. indifferent R (schema_new E b c)) \<and> indifferent R (fill_scope E)
      \<and> (\<forall>l a. indifferent R (logger_new E l a))
      \<and> (\<forall>w w'. R w w' \<longrightarrow> rng_seed E k w = rng_seed E k w'))"

text \<open>Two states of the driver that differ at most in worlds related by \<open>R\<close>.\<close>

definition agree :: "('w \<Rightarrow> 'w \<Rightarrow> bool) \<Rightarrow> ('w, 'p) state \<Rightarrow> ('w, 'p) state \<Rightarrow> bool" where
  "agree R s s' =
     (R (world s) (world s') \<and> trace s' = trace s \<and> queries_generated s' = queries_generated s
      \<and> loggers s' = loggers s \<and> global_cerr_logger s' = global_cerr_logger s)"

subsection \<open>A small environment to run the driver in\<close>

text \<open>
  The device under test follows a script of outcomes, one per call, and succeeds when
  the script is used up; the statement factory numbers its trees; the clock advances by
  five ticks per reading; the loggers do nothing. The build has no SQLite support.
\<close>

record demo_world =
  script :: "exn option list"
  made :: nat
  ticks :: int

definition demo_env :: "(demo_world, nat) env" where
  "demo_env = \<lparr>
     package_name = ''sqlsmith'', gitrev = ''unknown'', have_libsqlite3 = False, getpid = 7,
     schema_new = (\<lambda>b c w. (None, w)),
     fill_scope = (\<lambda>w. (None, w)),
     logger_new = (\<lambda>l a w. (None, w)),
     rng_seed = (\<lambda>k w. w\<lparr>made := nat \<bar>k\<bar>\<rparr>),
     statement_factory = (\<lambda>w. (Inr (made w), w\<lparr>made := Suc (made w)\<rparr>)),
     out = (\<lambda>n. ''select '' @ replicate n (CHR ''1'')),
     generated = (\<lambda>l p w. (None, w)),
     executed = (\<lambda>l p w. (None, w)),
     error = (\<lambda>l p e w. (None, w)),
     report = (\<lambda>w. (None, w)),
     dut_new = (\<lambda>b c w. (None, w)),
     test = (\<lambda>q w. case script w of [] \<Rightarrow> (None, w) | r # rs \<Rightarrow> (r, w\<lparr>script := rs\<rparr>)),
     clock = (\<lambda>w. (ticks w, w\<lparr>ticks := ticks w + 5\<rparr>)) \<rparr>"

definition demo_world :: "exn option list \<Rightarrow> demo_world" where
  "demo_world sc = \<lparr>script = sc, made = 0, ticks = 100\<rparr>"

text \<open>An environment in which the test takes two ticks and an \<^verbatim>\<open>executed\<close> hook three.\<close>

definition slow_env :: "(demo_world, nat) env" where
  "slow_env = demo_env\<lparr>
     test := \<lambda>q w. case script w of [] \<Rightarrow> (None, w\<lparr>ticks := ticks w + 2\<rparr>)
                    | r # rs \<Rightarrow> (r, w\<lparr>script := rs, ticks := ticks w + 2\<rparr>),
     executed := \<lambda>l p w. (None, w\<lparr>ticks := ticks w + 3\<rparr>)\<rparr>"

text \<open>Two environments with a failing hook.\<close>

definition generated_throws :: "(demo_world, nat) env" where
  "generated_throws = demo_env\<lparr>generated := \<lambda>l p w. (Some (RuntimeError ''disk full''), w)\<rparr>"

definition error_throws :: "(demo_world, nat) env" where
  "error_throws = demo_env\<lparr>error := \<lambda>l p e w. (Some (StdException ''std::bad_alloc''), w)\<rparr>"

text \<open>
  An environment in which the log database is down until tick 106: the \<^verbatim>\<open>error\<close> hook of
  the first logger throws a \<^verbatim>\<open>runtime_error\<close> before that tick, and a call of a hook takes
  one tick. The state has the two loggers of \<^verbatim>\<open>--verbose\<close> and a device under test that
  rejects the first statement.
\<close>

definition fails_once :: "(demo_world, nat) env" where
  "fails_once = demo_env\<lparr>error := \<lambda>l p e w.
     (if l = Impedance_feedback \<and> ticks w < 106 then Some (RuntimeError ''log database down'')
      else None, w\<lparr>ticks := ticks w + 1\<rparr>)\<rparr>"

definition verbose_state :: "(demo_world, nat) state" where
  "verbose_state = (init_state (demo_world [Some (Failure ''syntax error'')]))
     \<lparr>loggers := [Impedance_feedback, Cerr_logger]\<rparr>"

text \<open>
  Two worlds of this environment differ at most in the state of the generator when they
  have the same script and the same clock. A world whose generator has been used before.
\<close>

definition same_but_generator :: "demo_world \<Rightarrow> demo_world \<Rightarrow> bool" where
  "same_but_generator w w' = (script w' = script w \<and> ticks w' = ticks w)"

definition used_world :: demo_world where
  "used_world = \<lparr>script = [], made = 42, ticks = 100\<rparr>"

text \<open>Views of a trace: the device under test, the outcome of tests, the observers.\<close>

definition harness_event :: "'p event \<Rightarrow> bool" where
  "harness_event ev = (is_Dut_new ev \<or> is_Test ev \<or> is_Sleep ev)"

definition outcome_event :: "'p event \<Rightarrow> bool" where
  "outcome_event ev = (is_Test ev \<or> is_Error ev \<or> is_Timing ev)"

definition observer_event :: "'p event \<Rightarrow> bool" where
  "observer_event ev = (is_Statement ev \<or> is_Test ev \<or> note_event ev)"

text \<open>The state in which \<^verbatim>\<open>main\<close> enters the run loop when only the first logger exists.\<close>

definition demo_state :: "exn option list \<Rightarrow> (demo_world, nat) state" where
  "demo_state sc = (init_state (demo_world sc))\<lparr>loggers := [Impedance_feedback]\<rparr>"


subsection \<open>Basic facts about the state\<close>

lemma emit_simps [simp]:
  "trace (emit ev s) = trace s @ [ev]"
  "world (emit ev s) = world s"
  "loggers (emit ev s) = loggers s"
  "queries_generated (emit ev s) = queries_generated s"
  "global_cerr_logger (emit ev s) = global_cerr_logger s"
  by (simp_all add: emit_def)

lemma call_simps [simp]:
  "trace (snd (call f s)) = trace s"
  "loggers (snd (call f s)) = loggers s"
  "queries_generated (snd (call f s)) = queries_generated s"
  "global_cerr_logger (snd (call f s)) = global_cerr_logger s"
  "world (snd (call f s)) = snd (f (world s))"
  "fst (call f s) = fst (f (world s))"
  by (simp_all add: call_def split: prod.splits)

lemma try_call_simps [simp]:
  "trace (snd (try_call f s)) = trace s"
  "loggers (snd (try_call f s)) = loggers s"
  "queries_generated (snd (try_call f s)) = queries_generated s"
  "global_cerr_logger (snd (try_call f s)) = global_cerr_logger s"
  by (simp_all add: try_call_def call_def split: prod.splits option.splits)

lemma seq_Next [simp]: "seq (Next, s) f = f s"
  by (simp add: seq_def)

lemma seq_cases:
  "seq r f = (case fst r of Next \<Rightarrow> f (snd r) | _ \<Rightarrow> r)"
  by (cases r) (simp add: seq_def split: flow.splits)

lemma seq_assoc: "seq (seq r f) g = seq r (\<lambda>s. seq (f s) g)"
  by (cases r) (simp add: seq_def split: flow.splits)

lemma startup_unfold:
  "startup E options s =
     seq (load_schema E options s) (\<lambda>s1.
     seq (try_call (fill_scope E) (emit Fill_scope (s1\<lparr>queries_generated := 0\<rparr>))) (\<lambda>s2.
     seq (make_loggers E options s2) (\<lambda>s3.
     seed_rng E options s3)))"
  by (simp add: startup_def prologue_def seq_assoc)

lemma grows_refl [simp]: "grows A s s"
  by (simp add: grows_def)

lemma grows_trans: "grows A s s' \<Longrightarrow> grows A s' s'' \<Longrightarrow> grows A s s''"
  by (auto simp: grows_def)

lemma grows_emit: "A ev \<Longrightarrow> grows A s s' \<Longrightarrow> grows A s (emit ev s')"
  by (auto simp: grows_def)

lemma grows_call: "grows A s s' \<Longrightarrow> grows A s (snd (call f s'))"
  by (auto simp: grows_def)

lemma grows_try_call: "grows A s s' \<Longrightarrow> grows A s (snd (try_call f s'))"
  by (auto simp: grows_def)

lemma grows_world: "grows A s s' \<Longrightarrow> grows A s (s'\<lparr>world := w\<rparr>)"
  by (auto simp: grows_def)

lemma grows_counter: "grows A s s' \<Longrightarrow> grows A s (s'\<lparr>queries_generated := q\<rparr>)"
  by (auto simp: grows_def)

lemma grows_filter:
  assumes "grows A s s'" and "\<And>ev. A ev \<Longrightarrow> \<not> P ev"
  shows "filter P (trace s') = filter P (trace s)"
proof -
  from assms(1) obtain evs where t: "trace s' = trace s @ evs" and a: "list_all A evs"
    by (auto simp: grows_def)
  from a assms(2) have "filter P evs = []"
    by (auto simp: list_all_iff filter_empty_conv)
  with t show ?thesis by simp
qed

lemma grows_mono: "grows A s s' \<Longrightarrow> (\<And>ev. A ev \<Longrightarrow> B ev) \<Longrightarrow> grows B s s'"
  by (auto simp: grows_def list_all_iff)

lemma grows_loggers: "grows A s s' \<Longrightarrow> loggers s' = loggers s"
  by (simp add: grows_def)

lemma grows_global: "grows A s s' \<Longrightarrow> global_cerr_logger s' = global_cerr_logger s"
  by (simp add: grows_def)

lemma grows_set: "grows A s s' \<Longrightarrow> set (trace s) \<subseteq> set (trace s')"
  by (auto simp: grows_def)

lemma note_event_simps [simp]:
  "note_event (Generated l p)" "note_event (Executed l p)" "note_event (Error l p e)"
  "note_event (Log_failed l m)"
  by (simp_all add: note_event_def)

lemma note_event_loop: "note_event ev \<Longrightarrow> loop_event ev"
  by (cases ev) (simp_all add: note_event_def)

lemma notes_notify_generated: "grows note_event s (snd (notify_generated E ls gen s))"
proof (induction ls arbitrary: s)
  case Nil
  show ?case by simp
next
  case (Cons l ls)
  let ?c = "call (generated E l gen) (emit (Generated l gen) s)"
  have g: "grows note_event s (snd ?c)"
    by (intro grows_call grows_emit) simp_all
  show ?case
  proof (cases "fst ?c")
    case None
    then have "notify_generated E (l # ls) gen s = notify_generated E ls gen (snd ?c)"
      by (cases ?c) simp
    with grows_trans [OF g Cons.IH [of "snd ?c"]] show ?thesis by simp
  next
    case (Some e)
    then have "notify_generated E (l # ls) gen s = ?c"
      by (cases ?c) simp
    with g show ?thesis by simp
  qed
qed

lemma notes_notify_executed: "grows note_event s (snd (notify_executed E ls gen s))"
proof (induction ls arbitrary: s)
  case Nil
  show ?case by simp
next
  case (Cons l ls)
  let ?c = "call (executed E l gen) (emit (Executed l gen) s)"
  have g: "grows note_event s (snd ?c)"
    by (intro grows_call grows_emit) simp_all
  show ?case
  proof (cases "fst ?c")
    case None
    then have "notify_executed E (l # ls) gen s = notify_executed E ls gen (snd ?c)"
      by (cases ?c) simp
    with grows_trans [OF g Cons.IH [of "snd ?c"]] show ?thesis by simp
  next
    case (Some e)
    then have "notify_executed E (l # ls) gen s = ?c"
      by (cases ?c) simp
    with g show ?thesis by simp
  qed
qed

lemma notes_notify_error: "grows note_event s (snd (notify_error E ls gen e s))"
proof (induction ls arbitrary: s)
  case Nil
  show ?case by simp
next
  case (Cons l ls)
  let ?c = "call (error E l gen e) (emit (Error l gen e) s)"
  have g: "grows note_event s (snd ?c)"
    by (intro grows_call grows_emit) simp_all
  show ?case
  proof (cases "fst ?c")
    case None
    then have "notify_error E (l # ls) gen e s = notify_error E ls gen e (snd ?c)"
      by (cases ?c) simp
    with grows_trans [OF g Cons.IH [of "snd ?c"]] show ?thesis by simp
  next
    case (Some x)
    show ?thesis
    proof (cases "is_runtime_error x")
      case True
      let ?s = "emit (Log_failed l (what x)) (snd ?c)"
      from True Some have "notify_error E (l # ls) gen e s = notify_error E ls gen e ?s"
        by (cases ?c) simp
      moreover have "grows note_event s ?s"
        by (intro grows_emit g) simp
      ultimately show ?thesis
        using grows_trans [OF _ Cons.IH [of ?s]] by simp
    next
      case False
      with Some have "notify_error E (l # ls) gen e s = ?c"
        by (cases ?c) simp
      with g show ?thesis by simp
    qed
  qed
qed

lemma grows_notify_generated: "grows loop_event s (snd (notify_generated E ls gen s))"
  using notes_notify_generated by (rule grows_mono) (rule note_event_loop)

lemma grows_notify_executed: "grows loop_event s (snd (notify_executed E ls gen s))"
  using notes_notify_executed by (rule grows_mono) (rule note_event_loop)

lemma grows_notify_error: "grows loop_event s (snd (notify_error E ls gen e s))"
  using notes_notify_error by (rule grows_mono) (rule note_event_loop)

lemma grows_check_ceiling: "grows loop_event s (snd (check_ceiling E options s))"
  by (auto simp: check_ceiling_def Let_def seq_cases
      intro!: grows_try_call grows_emit grows_counter split: sum.splits flow.splits)

lemma queries_notify_generated [simp]:
  "queries_generated (snd (notify_generated E ls gen s)) = queries_generated s"
  by (induction ls arbitrary: s) (auto split: prod.splits option.splits simp: call_def emit_def)

lemma queries_notify_executed [simp]:
  "queries_generated (snd (notify_executed E ls gen s)) = queries_generated s"
  by (induction ls arbitrary: s) (auto split: prod.splits option.splits simp: call_def emit_def)

lemma queries_notify_error [simp]:
  "queries_generated (snd (notify_error E ls gen e s)) = queries_generated s"
  by (induction ls arbitrary: s) (auto split: prod.splits option.splits simp: call_def emit_def)

lemma grows_generate: "grows loop_event s (snd (generate E s))"
proof -
  obtain r w where f: "statement_factory E (world s) = (r, w)"
    by (cases "statement_factory E (world s)")
  show ?thesis
  proof (cases r)
    case (Inl e)
    with f show ?thesis by (simp add: generate_def grows_world)
  next
    case (Inr gen)
    let ?s = "emit (Statement gen) (s\<lparr>world := w\<rparr>)"
    have g: "grows loop_event s ?s"
      by (intro grows_emit grows_world) simp_all
    have n: "grows loop_event s (snd (notify_generated E (loggers s) gen ?s))"
      using grows_trans [OF g grows_notify_generated] .
    show ?thesis
    proof (cases "fst (notify_generated E (loggers s) gen ?s)")
      case None
      with f Inr n show ?thesis
        by (cases "notify_generated E (loggers s) gen ?s")
          (simp add: generate_def grows_emit)
    next
      case (Some e)
      with f Inr n show ?thesis
        by (cases "notify_generated E (loggers s) gen ?s") (simp add: generate_def)
    qed
  qed
qed


lemma grows_try_block: "grows loop_event s (snd (try_block E gen s))"
proof -
  let ?sql = "out E gen"
  let ?s1 = "emit (Write_file Qrycur (?sql @ '';'' @ endl)) (emit (Open_file Qrycur) s)"
  let ?c0 = "clock E (world ?s1)"
  let ?s2 = "snd (call (test E ?sql) (emit (Test ?sql) (?s1\<lparr>world := snd ?c0\<rparr>)))"
  have g2: "grows loop_event s ?s2"
    by (intro grows_call grows_emit grows_world) simp_all
  let ?s3 = "snd (notify_executed E (loggers ?s2) gen ?s2)"
  have g3: "grows loop_event s ?s3"
    using grows_trans [OF g2 grows_notify_executed] .
  let ?c1 = "clock E (world ?s3)"
  have g4: "grows loop_event s
      (emit (Write_file Qrylog (?sql @ '';'' @ endl))
         (emit (Timing (fst ?c1 - fst ?c0)) (?s3\<lparr>world := snd ?c1\<rparr>)))"
    by (intro grows_emit grows_world g3) simp_all
  show ?thesis
    using g2 g3 g4
    by (simp add: try_block_def Let_def case_prod_beta split: option.splits)
qed

lemma queries_try_block [simp]:
  "queries_generated (snd (try_block E gen s)) = queries_generated s"
  by (simp add: try_block_def Let_def case_prod_beta split: option.splits)

lemma grows_execute: "grows loop_event s (snd (execute E gen s))"
proof -
  let ?s1 = "snd (try_block E gen s)"
  have g1: "grows loop_event s ?s1" by (rule grows_try_block)
  have g2: "\<And>e. grows loop_event s (snd (notify_error E (loggers ?s1) gen e ?s1))"
    using grows_trans [OF g1 grows_notify_error] .
  show ?thesis
    using g1 g2
    by (simp add: execute_def case_prod_beta split: option.splits)
qed

lemma queries_execute [simp]:
  "queries_generated (snd (execute E gen s)) = queries_generated s"
  by (simp add: execute_def case_prod_beta split: option.splits)

lemma queries_generate [simp]:
  "queries_generated (snd (generate E s)) = queries_generated s"
  by (simp add: generate_def case_prod_beta split: sum.splits option.splits)

lemma grows_iteration: "grows loop_event s (snd (iteration E options s))"
proof -
  let ?c = "check_ceiling E options s"
  have g1: "grows loop_event s (snd ?c)" by (rule grows_check_ceiling)
  have g2: "grows loop_event s (snd (generate E (snd ?c)))"
    using grows_trans [OF g1 grows_generate] .
  have g3: "\<And>gen. grows loop_event s (snd (execute E gen (snd (generate E (snd ?c)))))"
    using grows_trans [OF g2 grows_execute] .
  show ?thesis
    using g1 g2 g3
    by (simp add: iteration_def seq_cases case_prod_beta split: flow.splits sum.splits)
qed

lemma grows_run_loop: "grows loop_event s (snd (run_loop k E options s))"
proof (induction k arbitrary: s)
  case 0
  show ?case by simp
next
  case (Suc k)
  let ?i = "iteration E options s"
  have g: "grows loop_event s (snd ?i)" by (rule grows_iteration)
  have g1: "grows loop_event s (snd (run_loop k E options (snd ?i)))"
    using grows_trans [OF g Suc.IH] .
  have "grows loop_event s (emit (Sleep 1000) (snd ?i))"
    by (intro grows_emit g) simp
  then have g2: "grows loop_event s (snd (run_loop k E options (emit (Sleep 1000) (snd ?i))))"
    using grows_trans [OF _ Suc.IH] by blast
  show ?case
    using g g1 g2 by (simp add: case_prod_beta split: flow.splits)
qed

lemma grows_dry_iteration: "grows loop_event s (snd (dry_iteration E options s))"
proof -
  let ?f = "statement_factory E (world s)"
  have g0: "grows loop_event s (s\<lparr>world := snd ?f\<rparr>)"
    by (intro grows_world) simp
  have n': "\<And>gen. grows loop_event s (emit (Cout ('';'' @ endl))
      (snd (notify_generated E (loggers s) gen
         (emit (Cout (out E gen)) (emit (Statement gen) (s\<lparr>world := snd ?f\<rparr>))))))"
    by (intro grows_emit grows_trans [OF _ grows_notify_generated] grows_world) simp_all
  have n: "\<And>gen. grows loop_event s
      (snd (notify_generated E (loggers s) gen
         (emit (Cout (out E gen)) (emit (Statement gen) (s\<lparr>world := snd ?f\<rparr>)))))"
    by (intro grows_emit grows_trans [OF _ grows_notify_generated] grows_world) simp_all
  show ?thesis
    using g0 n n'
    by (simp add: dry_iteration_def Let_def case_prod_beta grows_counter
        split: option.splits sum.splits)
qed

lemma grows_dry_run: "grows loop_event s (snd (dry_run k E options s))"
proof (induction k arbitrary: s)
  case 0
  show ?case by simp
next
  case (Suc k)
  let ?i = "dry_iteration E options s"
  have g: "grows loop_event s (snd ?i)" by (rule grows_dry_iteration)
  have g1: "grows loop_event s (snd (dry_run k E options (snd ?i)))"
    using grows_trans [OF g Suc.IH] .
  show ?case
    using g g1 by (simp add: case_prod_beta split: flow.splits)
qed


subsection \<open>A pass in which the collaborators behave\<close>

lemma notify_generated_returns:
  assumes "\<forall>l \<in> set ls. \<forall>w. fst (generated E l gen w) = None"
  shows "fst (notify_generated E ls gen s) = None
    \<and> trace (snd (notify_generated E ls gen s)) = trace s @ map (\<lambda>l. Generated l gen) ls"
  using assms
proof (induction ls arbitrary: s)
  case Nil
  show ?case by simp
next
  case (Cons l ls)
  let ?c = "call (generated E l gen) (emit (Generated l gen) s)"
  from Cons.prems have "fst ?c = None" by simp
  then have "notify_generated E (l # ls) gen s = notify_generated E ls gen (snd ?c)"
    by (cases ?c) simp
  moreover from Cons.prems have "\<forall>l \<in> set ls. \<forall>w. fst (generated E l gen w) = None" by simp
  ultimately show ?case
    using Cons.IH [of "snd ?c"] by simp
qed

lemma notify_executed_returns:
  assumes "\<forall>l \<in> set ls. \<forall>w. fst (executed E l gen w) = None"
  shows "fst (notify_executed E ls gen s) = None
    \<and> trace (snd (notify_executed E ls gen s)) = trace s @ map (\<lambda>l. Executed l gen) ls"
  using assms
proof (induction ls arbitrary: s)
  case Nil
  show ?case by simp
next
  case (Cons l ls)
  let ?c = "call (executed E l gen) (emit (Executed l gen) s)"
  from Cons.prems have "fst ?c = None" by simp
  then have "notify_executed E (l # ls) gen s = notify_executed E ls gen (snd ?c)"
    by (cases ?c) simp
  moreover from Cons.prems have "\<forall>l \<in> set ls. \<forall>w. fst (executed E l gen w) = None" by simp
  ultimately show ?case
    using Cons.IH [of "snd ?c"] by simp
qed

lemma notify_error_guarded:
  assumes "\<forall>l \<in> set ls. \<forall>w x. fst (error E l gen e w) = Some x \<longrightarrow> is_runtime_error x"
    and "\<forall>l m. \<not> P (Log_failed l m)"
  shows "fst (notify_error E ls gen e s) = None
    \<and> filter P (trace (snd (notify_error E ls gen e s)))
        = filter P (trace s @ map (\<lambda>l. Error l gen e) ls)"
  using assms(1)
proof (induction ls arbitrary: s)
  case Nil
  show ?case by simp
next
  case (Cons l ls)
  let ?c = "call (error E l gen e) (emit (Error l gen e) s)"
  from Cons.prems
  have rest: "\<forall>l \<in> set ls. \<forall>w x. fst (error E l gen e w) = Some x \<longrightarrow> is_runtime_error x"
    by simp
  show ?case
  proof (cases "fst ?c")
    case None
    then have "notify_error E (l # ls) gen e s = notify_error E ls gen e (snd ?c)"
      by (cases ?c) simp
    with Cons.IH [OF rest, of "snd ?c"] show ?thesis by simp
  next
    case (Some x)
    with Cons.prems have "is_runtime_error x" by simp
    with Some have "notify_error E (l # ls) gen e s
        = notify_error E ls gen e (emit (Log_failed l (what x)) (snd ?c))"
      by (cases ?c) simp
    with Cons.IH [OF rest, of "emit (Log_failed l (what x)) (snd ?c)"] assms(2)
    show ?thesis by simp
  qed
qed

lemma generate_returns:
  assumes "factory_returns E" and "generated_returns E (loggers s)"
  shows "\<exists>gen. fst (generate E s) = Inr gen
    \<and> trace (snd (generate E s)) = trace s @ generate_events E (loggers s) gen"
proof -
  from assms(1) obtain gen where f: "fst (statement_factory E (world s)) = Inr gen"
    by (auto simp: factory_returns_def)
  let ?s = "emit (Statement gen) (s\<lparr>world := snd (statement_factory E (world s))\<rparr>)"
  from assms(2) have "\<forall>l \<in> set (loggers s). \<forall>w. fst (generated E l gen w) = None"
    by (simp add: generated_returns_def)
  from notify_generated_returns [OF this, of ?s]
  have "fst (notify_generated E (loggers s) gen ?s) = None"
    and "trace (snd (notify_generated E (loggers s) gen ?s))
      = trace s @ Statement gen # map (\<lambda>l. Generated l gen) (loggers s)"
    by simp_all
  with f have "fst (generate E s) = Inr gen
    \<and> trace (snd (generate E s)) = trace s @ generate_events E (loggers s) gen"
    by (simp add: generate_def generate_events_def case_prod_beta)
  then show ?thesis ..
qed

lemma execute_success:
  assumes "fst (test E (out E gen) (snd (clock E (world s)))) = None"
    and "executed_returns E (loggers s)"
  shows "fst (execute E gen s) = Next
    \<and> (\<exists>w. trace (snd (execute E gen s))
          = trace s @ submit_events E gen
            @ outcome_events E (loggers s) gen None (fst (clock E w) - fst (clock E (world s))))"
proof -
  let ?sql = "out E gen"
  let ?s1 = "emit (Write_file Qrycur (?sql @ '';'' @ endl)) (emit (Open_file Qrycur) s)"
  let ?c0 = "clock E (world s)"
  let ?s2 = "snd (call (test E ?sql) (emit (Test ?sql) (?s1\<lparr>world := snd ?c0\<rparr>)))"
  let ?s3 = "snd (notify_executed E (loggers s) gen ?s2)"
  from assms(2) have "\<forall>l \<in> set (loggers s). \<forall>w. fst (executed E l gen w) = None"
    by (simp add: executed_returns_def)
  from notify_executed_returns [OF this, of ?s2]
  have n: "fst (notify_executed E (loggers s) gen ?s2) = None"
    and t: "trace ?s3 = trace s @ submit_events E gen @ map (\<lambda>l. Executed l gen) (loggers s)"
    by (simp_all add: submit_events_def)
  from assms(1) n t have "fst (execute E gen s) = Next
    \<and> trace (snd (execute E gen s))
        = trace s @ submit_events E gen
          @ outcome_events E (loggers s) gen None
              (fst (clock E (world ?s3)) - fst (clock E (world s)))"
    by (simp add: execute_def try_block_def Let_def case_prod_beta)
  then show ?thesis by blast
qed

lemma execute_failure:
  assumes "fst (test E (out E gen) (snd (clock E (world s)))) = Some e"
    and "is_failure e"
    and "error_guarded E (loggers s)"
    and "\<forall>l m. \<not> P (Log_failed l m)"
  shows "fst (execute E gen s) = (if is_broken e then Throw e else Next)
    \<and> filter P (trace (snd (execute E gen s)))
        = filter P (trace s @ submit_events E gen @ outcome_events E (loggers s) gen (Some e) d)"
proof -
  let ?sql = "out E gen"
  let ?s1 = "emit (Write_file Qrycur (?sql @ '';'' @ endl)) (emit (Open_file Qrycur) s)"
  let ?c0 = "clock E (world s)"
  let ?s2 = "snd (call (test E ?sql) (emit (Test ?sql) (?s1\<lparr>world := snd ?c0\<rparr>)))"
  have tb: "try_block E gen s = (Some e, ?s2)"
    using assms(1) by (simp add: try_block_def Let_def case_prod_beta call_def)
  from assms(3) have "\<forall>l \<in> set (loggers s). \<forall>w x.
      fst (error E l gen e w) = Some x \<longrightarrow> is_runtime_error x"
    by (simp add: error_guarded_def)
  from notify_error_guarded [OF this assms(4), of ?s2]
  have n: "fst (notify_error E (loggers s) gen e ?s2) = None"
    and t: "filter P (trace (snd (notify_error E (loggers s) gen e ?s2)))
      = filter P (trace s @ submit_events E gen @ map (\<lambda>l. Error l gen e) (loggers s))"
    by (simp_all add: submit_events_def)
  from tb assms(2) n t show ?thesis
    by (simp add: execute_def case_prod_beta)
qed

lemma execute_other:
  assumes "fst (test E (out E gen) (snd (clock E (world s)))) = Some e"
    and "\<not> is_failure e"
  shows "fst (execute E gen s) = Throw e"
  using assms by (simp add: execute_def try_block_def Let_def case_prod_beta)


lemma check_ceiling_absent:
  "\<not> count options ''max-queries'' \<Longrightarrow> check_ceiling E options s = (Next, s)"
  by (simp add: check_ceiling_def)

lemma check_ceiling_below:
  assumes "count options ''max-queries''" and "stol (opt options ''max-queries'') = Inr n"
    and "queries_generated s < n" and "queries_generated s \<noteq> LONG_MAX"
  shows "check_ceiling E options s = (Next, s\<lparr>queries_generated := queries_generated s + 1\<rparr>)"
  using assms by (simp add: check_ceiling_def Let_def)

lemma check_ceiling_reached:
  assumes "count options ''max-queries''" and "stol (opt options ''max-queries'') = Inr n"
    and "n \<le> queries_generated s" and "queries_generated s \<noteq> LONG_MAX"
    and "global_cerr_logger s \<longrightarrow> report_returns E"
    and "\<not> P Report"
  shows "fst (check_ceiling E options s) = Return 0
    \<and> filter P (trace (snd (check_ceiling E options s))) = filter P (trace s)
    \<and> queries_generated (snd (check_ceiling E options s)) = queries_generated s + 1"
  using assms
  by (simp add: check_ceiling_def Let_def report_returns_def try_call_def call_def
      case_prod_beta seq_cases split: option.splits)

lemma iteration_Return:
  "fst (check_ceiling E options s) = Return c
    \<Longrightarrow> iteration E options s = check_ceiling E options s"
  by (simp add: iteration_def seq_cases)

lemma iteration_pass:
  assumes "factory_returns E" and ob: "observers_behave E (loggers s)"
    and "test_fails_only E"
    and c: "check_ceiling E options s = (Next, s1)" and t1: "trace s1 = trace s"
    and P: "\<forall>l m. \<not> P (Log_failed l m)"
  shows "\<exists>gen r d. possible E (gen, r, d)
    \<and> fst (iteration E options s) = (case r of None \<Rightarrow> Next
         | Some e \<Rightarrow> if is_broken e then Throw e else Next)
    \<and> filter P (trace (snd (iteration E options s)))
        = filter P (trace s @ generate_events E (loggers s) gen @ submit_events E gen
            @ outcome_events E (loggers s) gen r d)
    \<and> queries_generated (snd (iteration E options s)) = queries_generated s1"
proof -
  have l1: "loggers s1 = loggers s"
    using grows_loggers [OF grows_check_ceiling [where s = s and E = E and options = options]] c
    by simp
  let ?s2 = "snd (generate E s1)"
  from ob have "generated_returns E (loggers s)" by (simp add: observers_behave_def)
  with generate_returns [of E s1] assms(1) l1
  obtain gen where g: "fst (generate E s1) = Inr gen"
    and t2: "trace ?s2 = trace s @ generate_events E (loggers s) gen"
    using t1 by auto
  have l2: "loggers ?s2 = loggers s"
    using grows_loggers [OF grows_generate [where s = s1 and E = E]] l1 by simp
  have it: "iteration E options s = execute E gen ?s2"
    using c g by (simp add: iteration_def case_prod_beta)
  have q2: "queries_generated (snd (execute E gen ?s2)) = queries_generated s1"
    by simp
  let ?r = "fst (test E (out E gen) (snd (clock E (world ?s2))))"
  show ?thesis
  proof (cases ?r)
    case None
    have "\<not> test_breaks E"
    proof
      assume "test_breaks E"
      then obtain m where "?r = Some (Broken m)"
        unfolding test_breaks_def by blast
      with None show False by simp
    qed
    with ob have "executed_returns E (loggers ?s2)" by (simp add: observers_behave_def l2)
    from execute_success [OF None this] l2
    obtain d where "fst (execute E gen ?s2) = Next"
      and "trace (snd (execute E gen ?s2))
        = trace ?s2 @ submit_events E gen @ outcome_events E (loggers s) gen None d"
      by auto
    with it t2 q2 None
    have "possible E (gen, None, d)
      \<and> fst (iteration E options s) = (case None of None \<Rightarrow> Next
           | Some e \<Rightarrow> if is_broken e then Throw e else Next)
      \<and> filter P (trace (snd (iteration E options s)))
          = filter P (trace s @ generate_events E (loggers s) gen @ submit_events E gen
              @ outcome_events E (loggers s) gen None d)
      \<and> queries_generated (snd (iteration E options s)) = queries_generated s1"
      by (auto simp: possible_def)
    then show ?thesis by blast
  next
    case (Some e)
    with assms(3) have f: "is_failure e"
      by (auto simp: test_fails_only_def)
    have "\<not> test_succeeds E"
    proof
      assume "test_succeeds E"
      then have "?r = None"
        unfolding test_succeeds_def by blast
      with Some show False by simp
    qed
    with ob have "error_guarded E (loggers ?s2)" by (simp add: observers_behave_def l2)
    from execute_failure [OF Some f this P, of 0] l2
    have "fst (execute E gen ?s2) = (if is_broken e then Throw e else Next)"
      and "filter P (trace (snd (execute E gen ?s2)))
        = filter P (trace ?s2 @ submit_events E gen
            @ outcome_events E (loggers s) gen (Some e) 0)"
      by simp_all
    with it t2 q2 Some
    have "possible E (gen, Some e, 0)
      \<and> fst (iteration E options s) = (case Some e of None \<Rightarrow> Next
           | Some e \<Rightarrow> if is_broken e then Throw e else Next)
      \<and> filter P (trace (snd (iteration E options s)))
          = filter P (trace s @ generate_events E (loggers s) gen @ submit_events E gen
              @ outcome_events E (loggers s) gen (Some e) 0)
      \<and> queries_generated (snd (iteration E options s)) = queries_generated s1"
      by (auto simp: possible_def)
    then show ?thesis by blast
  qed
qed

lemma run_loop_Next:
  "fst (iteration E options s) = Next
    \<Longrightarrow> run_loop (Suc k) E options s = run_loop k E options (snd (iteration E options s))"
  by (cases "iteration E options s") simp

lemma run_loop_Broken:
  "fst (iteration E options s) = Throw e \<Longrightarrow> is_broken e
    \<Longrightarrow> run_loop (Suc k) E options s
      = run_loop k E options (emit (Sleep 1000) (snd (iteration E options s)))"
  by (cases "iteration E options s") simp

lemma run_loop_Return:
  "fst (iteration E options s) = Return c
    \<Longrightarrow> run_loop (Suc k) E options s = iteration E options s"
  by (cases "iteration E options s") simp


subsection \<open>The passes of a run\<close>

text \<open>
  What the run loop has done after \<open>k\<close> passes, seen through any filter \<open>P\<close> that ignores
  the messages about failed hooks and the report: it has appended the events of a list
  of possible passes; with a ceiling \<open>n\<close> it has returned 0 after \<open>n\<close> passes (counted from a
  counter at 0), otherwise it is still running.
\<close>

lemma run_loop_passes:
  assumes "factory_returns E" and "test_fails_only E"
    and "observers_behave E (loggers s)"
    and "count options ''max-queries'' \<longrightarrow>
           stol (opt options ''max-queries'') = Inr n \<and> queries_generated s \<le> n \<and> n < LONG_MAX
           \<and> (global_cerr_logger s \<longrightarrow> report_returns E)"
    and P: "\<forall>l m. \<not> P (Log_failed l m)" "\<not> P Report"
  shows "\<exists>passes. list_all (possible E) passes
    \<and> filter P (trace (snd (run_loop k E options s)))
        = filter P (trace s @ concat (map (pass_events E (loggers s)) passes))
    \<and> (if count options ''max-queries'' \<and> nat (n - queries_generated s) < k
       then fst (run_loop k E options s) = Return 0
         \<and> length passes = nat (n - queries_generated s)
         \<and> queries_generated (snd (run_loop k E options s)) = n + 1
       else fst (run_loop k E options s) = Running \<and> length passes = k)"
  using assms(3-4)
proof (induction k arbitrary: s)
  case 0
  have "list_all (possible E) []
    \<and> filter P (trace (snd (run_loop 0 E options s)))
        = filter P (trace s @ concat (map (pass_events E (loggers s)) []))
    \<and> (if count options ''max-queries'' \<and> nat (n - queries_generated s) < 0
       then fst (run_loop 0 E options s) = Return 0
         \<and> length ([] :: ('b \<times> exn option \<times> int) list) = nat (n - queries_generated s)
         \<and> queries_generated (snd (run_loop 0 E options s)) = n + 1
       else fst (run_loop 0 E options s) = Running
         \<and> length ([] :: ('b \<times> exn option \<times> int) list) = 0)"
    by simp
  then show ?case by blast
next
  case (Suc k)
  let ?q = "queries_generated s"
  let ?it = "iteration E options s"
  show ?case
  proof (cases "count options ''max-queries'' \<and> ?q = n")
    case True
    with Suc.prems have st: "stol (opt options ''max-queries'') = Inr n"
      and lm: "?q \<noteq> LONG_MAX" and rp: "global_cerr_logger s \<longrightarrow> report_returns E"
      by auto
    from True have cnt: "count options ''max-queries''" and le: "n \<le> ?q" by auto
    from check_ceiling_reached [where P = P, OF cnt st le lm rp P(2)]
    have r: "fst (check_ceiling E options s) = Return 0"
      and f: "filter P (trace (snd (check_ceiling E options s))) = filter P (trace s)"
      and qq: "queries_generated (snd (check_ceiling E options s)) = ?q + 1"
      by simp_all
    from iteration_Return [OF r] have it: "?it = check_ceiling E options s" .
    with r have "run_loop (Suc k) E options s = check_ceiling E options s"
      using run_loop_Return [of E options s 0 k] by simp
    with r f qq True
    have "list_all (possible E) []
      \<and> filter P (trace (snd (run_loop (Suc k) E options s)))
          = filter P (trace s @ concat (map (pass_events E (loggers s)) []))
      \<and> (if count options ''max-queries'' \<and> nat (n - ?q) < Suc k
         then fst (run_loop (Suc k) E options s) = Return 0
           \<and> length ([] :: ('b \<times> exn option \<times> int) list) = nat (n - ?q)
           \<and> queries_generated (snd (run_loop (Suc k) E options s)) = n + 1
         else fst (run_loop (Suc k) E options s) = Running
           \<and> length ([] :: ('b \<times> exn option \<times> int) list) = Suc k)"
      by simp
    then show ?thesis by blast
  next
    case False
    define s1 where "s1 = (if count options ''max-queries''
      then s\<lparr>queries_generated := ?q + 1\<rparr> else s)"
    have c: "check_ceiling E options s = (Next, s1)"
    proof (cases "count options ''max-queries''")
      case True
      with Suc.prems False have "stol (opt options ''max-queries'') = Inr n"
        and "?q < n" and "?q \<noteq> LONG_MAX" by auto
      from check_ceiling_below [OF True this] True show ?thesis
        by (simp add: s1_def)
    next
      case False
      then show ?thesis by (simp add: s1_def check_ceiling_absent)
    qed
    have t1: "trace s1 = trace s" by (simp add: s1_def)
    from iteration_pass [where P = P, OF assms(1) Suc.prems(1) assms(2) c t1 P(1)]
    obtain gen r d where poss: "possible E (gen, r, d)"
      and fl: "fst ?it = (case r of None \<Rightarrow> Next
           | Some e \<Rightarrow> if is_broken e then Throw e else Next)"
      and tr: "filter P (trace (snd ?it))
          = filter P (trace s @ generate_events E (loggers s) gen @ submit_events E gen
              @ outcome_events E (loggers s) gen r d)"
      and q: "queries_generated (snd ?it) = queries_generated s1"
      by blast
    define s' where "s' = (case r of None \<Rightarrow> snd ?it
      | Some e \<Rightarrow> if is_broken e then emit (Sleep 1000) (snd ?it) else snd ?it)"
    have step: "run_loop (Suc k) E options s = run_loop k E options s'"
    proof (cases r)
      case None
      with fl have "fst ?it = Next" by simp
      from run_loop_Next [OF this] None show ?thesis by (simp add: s'_def)
    next
      case (Some e)
      show ?thesis
      proof (cases "is_broken e")
        case True
        with fl Some have "fst ?it = Throw e" by simp
        from run_loop_Broken [OF this True] Some True show ?thesis by (simp add: s'_def)
      next
        case False
        with fl Some have "fst ?it = Next" by simp
        from run_loop_Next [OF this] Some False show ?thesis by (simp add: s'_def)
      qed
    qed
    have tr': "filter P (trace s') = filter P (trace s @ pass_events E (loggers s) (gen, r, d))"
      using tr by (cases r) (simp_all add: s'_def)
    have g: "grows loop_event s (snd ?it)" by (rule grows_iteration)
    have l': "loggers s' = loggers s"
      using grows_loggers [OF g] by (cases r) (simp_all add: s'_def)
    have gl': "global_cerr_logger s' = global_cerr_logger s"
      using grows_global [OF g] by (cases r) (simp_all add: s'_def)
    have q': "queries_generated s' = queries_generated s1"
      using q by (cases r) (simp_all add: s'_def)
    have ceil': "count options ''max-queries'' \<longrightarrow>
        stol (opt options ''max-queries'') = Inr n \<and> queries_generated s' \<le> n \<and> n < LONG_MAX
        \<and> (global_cerr_logger s' \<longrightarrow> report_returns E)"
      using Suc.prems(2) False q' gl' by (auto simp: s1_def)
    from Suc.IH [of s'] Suc.prems(1) l' ceil'
    obtain passes where ps: "list_all (possible E) passes"
      and trp: "filter P (trace (snd (run_loop k E options s')))
          = filter P (trace s' @ concat (map (pass_events E (loggers s)) passes))"
      and res: "if count options ''max-queries'' \<and> nat (n - queries_generated s') < k
         then fst (run_loop k E options s') = Return 0
           \<and> length passes = nat (n - queries_generated s')
           \<and> queries_generated (snd (run_loop k E options s')) = n + 1
         else fst (run_loop k E options s') = Running \<and> length passes = k"
      by auto
    have lt: "count options ''max-queries'' \<Longrightarrow> ?q < n"
      using Suc.prems(2) False by auto
    have "list_all (possible E) ((gen, r, d) # passes)
      \<and> filter P (trace (snd (run_loop (Suc k) E options s)))
          = filter P (trace s @ concat (map (pass_events E (loggers s)) ((gen, r, d) # passes)))
      \<and> (if count options ''max-queries'' \<and> nat (n - ?q) < Suc k
         then fst (run_loop (Suc k) E options s) = Return 0
           \<and> length ((gen, r, d) # passes) = nat (n - ?q)
           \<and> queries_generated (snd (run_loop (Suc k) E options s)) = n + 1
         else fst (run_loop (Suc k) E options s) = Running
           \<and> length ((gen, r, d) # passes) = Suc k)"
    proof (intro conjI)
      show "list_all (possible E) ((gen, r, d) # passes)"
        using poss ps by simp
      show "filter P (trace (snd (run_loop (Suc k) E options s)))
          = filter P (trace s @ concat (map (pass_events E (loggers s)) ((gen, r, d) # passes)))"
        using step trp tr' by simp
      show "if count options ''max-queries'' \<and> nat (n - ?q) < Suc k
         then fst (run_loop (Suc k) E options s) = Return 0
           \<and> length ((gen, r, d) # passes) = nat (n - ?q)
           \<and> queries_generated (snd (run_loop (Suc k) E options s)) = n + 1
         else fst (run_loop (Suc k) E options s) = Running
           \<and> length ((gen, r, d) # passes) = Suc k"
      proof (cases "count options ''max-queries''")
        case True
        from lt [OF True] q' True have "nat (n - ?q) = Suc (nat (n - queries_generated s'))"
          by (simp add: s1_def)
        with res step True show ?thesis by (simp split: if_splits)
      next
        case False
        with res step show ?thesis by simp
      qed
    qed
    then show ?thesis by blast
  qed
qed


subsection \<open>Counting in the events of the passes\<close>

lemma filter_visible:
  assumes "\<And>ev. P ev \<Longrightarrow> visible ev"
  shows "filter P (filter visible xs) = filter P xs"
  using assms by (induction xs) auto

lemma filter_map_none: "(\<And>x. \<not> P (f x)) \<Longrightarrow> filter P (map f xs) = []"
  by (induction xs) simp_all

lemma statements_pass [simp]:
  "filter is_Statement (pass_events E ls (gen, r, d)) = [Statement gen]"
  by (cases r) (simp_all add: generate_events_def submit_events_def filter_map_none)

lemma tests_pass [simp]:
  "filter is_Test (pass_events E ls (gen, r, d)) = [Test (out E gen)]"
  by (cases r) (simp_all add: generate_events_def submit_events_def filter_map_none)

lemma timings_pass [simp]:
  "filter is_Timing (pass_events E ls (gen, r, d))
    = (case r of None \<Rightarrow> [Timing d] | Some e \<Rightarrow> [])"
  by (cases r) (simp_all add: generate_events_def submit_events_def filter_map_none)

lemma sleeps_pass [simp]:
  "filter is_Sleep (pass_events E ls (gen, r, d)) = recover_events r"
  by (cases r) (simp_all add: generate_events_def submit_events_def filter_map_none)

lemma errors_pass [simp]:
  "filter is_Error (pass_events E ls (gen, r, d))
    = (case r of None \<Rightarrow> [] | Some e \<Rightarrow> map (\<lambda>l. Error l gen e) ls)"
  by (cases r) (simp_all add: generate_events_def submit_events_def filter_map_none)

declare pass_events.simps [simp del]

lemma count_passes:
  assumes "\<And>p. p \<in> set ps \<Longrightarrow> length (filter P (f p)) = c"
  shows "length (filter P (concat (map f ps))) = c * length ps"
  using assms by (induction ps) simp_all

lemma count_passes_le:
  assumes "\<And>p. p \<in> set ps \<Longrightarrow> length (filter P (f p)) \<le> c"
  shows "length (filter P (concat (map f ps))) \<le> c * length ps"
  using assms
proof (induction ps)
  case Nil
  show ?case by simp
next
  case (Cons p ps)
  from Cons.prems have "length (filter P (f p)) \<le> c" by simp
  moreover from Cons have "length (filter P (concat (map f ps))) \<le> c * length ps" by simp
  ultimately show ?case by simp
qed

lemma none_passes:
  assumes "\<And>p. p \<in> set ps \<Longrightarrow> filter P (f p) = []"
  shows "filter P (concat (map f ps)) = []"
  using assms by (induction ps) simp_all

text \<open>More fuel does not change the result of a loop that has ended.\<close>

lemma run_loop_stable:
  "fst (run_loop k E options s) \<noteq> Running
    \<Longrightarrow> run_loop (k + j) E options s = run_loop k E options s"
proof (induction k arbitrary: s)
  case 0
  then show ?case by simp
next
  case (Suc k)
  obtain r s' where it: "iteration E options s = (r, s')"
    by (cases "iteration E options s")
  show ?case
  proof (cases r)
    case Next
    with it Suc.prems have "fst (run_loop k E options s') \<noteq> Running" by simp
    from Suc.IH [OF this] it Next show ?thesis by simp
  next
    case (Throw e)
    show ?thesis
    proof (cases "is_broken e")
      case True
      with it Throw Suc.prems
      have "fst (run_loop k E options (emit (Sleep 1000) s')) \<noteq> Running" by simp
      from Suc.IH [OF this] it Throw True show ?thesis by simp
    next
      case False
      with it Throw show ?thesis by simp
    qed
  qed (use it in simp_all)
qed

lemma dry_run_stable:
  "fst (dry_run k E options s) \<noteq> Running
    \<Longrightarrow> dry_run (k + j) E options s = dry_run k E options s"
proof (induction k arbitrary: s)
  case 0
  then show ?case by simp
next
  case (Suc k)
  obtain r s' where it: "dry_iteration E options s = (r, s')"
    by (cases "dry_iteration E options s")
  show ?case
  proof (cases r)
    case Next
    with it Suc.prems have "fst (dry_run k E options s') \<noteq> Running" by simp
    from Suc.IH [OF this] it Next show ?thesis by simp
  qed (use it in simp_all)
qed


lemma replicate_passes:
  assumes "\<And>p. p \<in> set ps \<Longrightarrow> filter P (f p) = [x]"
  shows "filter P (concat (map f ps)) = replicate (length ps) x"
  using assms by (induction ps) simp_all

text \<open>The same with the filter inside: one list of passes for every visible kind of event.\<close>

lemma run_loop_visible:
  assumes "factory_returns E" and "test_fails_only E"
    and "observers_behave E (loggers s)"
    and "count options ''max-queries'' \<longrightarrow>
           stol (opt options ''max-queries'') = Inr n \<and> queries_generated s \<le> n \<and> n < LONG_MAX
           \<and> (global_cerr_logger s \<longrightarrow> report_returns E)"
  shows "\<exists>passes. list_all (possible E) passes
    \<and> (\<forall>P. (\<forall>ev. P ev \<longrightarrow> visible ev) \<longrightarrow>
          filter P (trace (snd (run_loop k E options s)))
            = filter P (trace s) @ filter P (concat (map (pass_events E (loggers s)) passes)))
    \<and> (if count options ''max-queries'' \<and> nat (n - queries_generated s) < k
       then fst (run_loop k E options s) = Return 0
         \<and> length passes = nat (n - queries_generated s)
         \<and> queries_generated (snd (run_loop k E options s)) = n + 1
       else fst (run_loop k E options s) = Running \<and> length passes = k)"
proof -
  have v: "\<forall>l m. \<not> visible (Log_failed l m :: 'b event)" "\<not> visible (Report :: 'b event)"
    by (simp_all add: visible_def)
  from run_loop_passes [where P = visible, OF assms v, of k]
  obtain passes where ps: "list_all (possible E) passes"
    and tr: "filter visible (trace (snd (run_loop k E options s)))
        = filter visible (trace s @ concat (map (pass_events E (loggers s)) passes))"
    and res: "if count options ''max-queries'' \<and> nat (n - queries_generated s) < k
       then fst (run_loop k E options s) = Return 0
         \<and> length passes = nat (n - queries_generated s)
         \<and> queries_generated (snd (run_loop k E options s)) = n + 1
       else fst (run_loop k E options s) = Running \<and> length passes = k"
    by blast
  have "\<forall>P. (\<forall>ev. P ev \<longrightarrow> visible ev) \<longrightarrow>
      filter P (trace (snd (run_loop k E options s)))
        = filter P (trace s) @ filter P (concat (map (pass_events E (loggers s)) passes))"
  proof (intro allI impI)
    fix P :: "'b event \<Rightarrow> bool"
    assume "\<forall>ev. P ev \<longrightarrow> visible ev"
    then have pv: "\<And>ev. P ev \<Longrightarrow> visible ev" by blast
    have "filter P (trace (snd (run_loop k E options s)))
        = filter P (filter visible (trace (snd (run_loop k E options s))))"
      using filter_visible [OF pv] by metis
    also have "\<dots> = filter P (filter visible
        (trace s @ concat (map (pass_events E (loggers s)) passes)))"
      using tr by simp
    also have "\<dots> = filter P (trace s @ concat (map (pass_events E (loggers s)) passes))"
      using filter_visible [OF pv] by metis
    finally show "filter P (trace (snd (run_loop k E options s)))
        = filter P (trace s) @ filter P (concat (map (pass_events E (loggers s)) passes))"
      by simp
  qed
  with ps res show ?thesis by blast
qed


subsection \<open>The ceiling\<close>

lemma visible_simps [simp]:
  "is_Statement ev \<Longrightarrow> visible ev" "is_Test ev \<Longrightarrow> visible ev" "is_Timing ev \<Longrightarrow> visible ev"
  "is_Sleep ev \<Longrightarrow> visible ev" "is_Error ev \<Longrightarrow> visible ev"
  by (cases ev; simp add: visible_def)+

lemma test_succeeds_fails_only: "test_succeeds E \<Longrightarrow> test_fails_only E"
  by (simp add: test_succeeds_def test_fails_only_def)

lemma test_breaks_fails_only:
  assumes "test_breaks E"
  shows "test_fails_only E"
  unfolding test_fails_only_def
proof (intro allI impI)
  fix q w x
  assume "fst (test E q w) = Some x"
  moreover from assms obtain m where "fst (test E q w) = Some (Broken m)"
    unfolding test_breaks_def by blast
  ultimately have "x = Broken m" by simp
  then show "is_failure x" by simp
qed

text \<open>
  C1. With the option \<^verbatim>\<open>max-queries\<close> set to \<open>n\<close> and a device under test on which every
  statement succeeds, the run loop generates \<open>n\<close> statements, executes each of them
  successfully and then returns 0: with enough passes allowed the result is \<open>Return 0\<close>, and
  the trace has gained exactly \<open>n\<close> statements, \<open>n\<close> tests and \<open>n\<close> timings, no error
  notification and no sleep. The statement factory and the hooks are assumed to return.
\<close>

theorem ceiling_ends_run:
  assumes "count options ''max-queries''" and "stol (opt options ''max-queries'') = Inr n"
    and "0 \<le> n" and "n < LONG_MAX" and "queries_generated s = 0"
    and "test_succeeds E" and "factory_returns E"
    and "generated_returns E (loggers s)" and "executed_returns E (loggers s)"
    and "global_cerr_logger s \<longrightarrow> report_returns E"
  shows "fst (run_loop (Suc (nat n) + k) E options s) = Return 0
    \<and> length (filter is_Statement (trace (snd (run_loop (Suc (nat n) + k) E options s))))
        = length (filter is_Statement (trace s)) + nat n
    \<and> length (filter is_Test (trace (snd (run_loop (Suc (nat n) + k) E options s))))
        = length (filter is_Test (trace s)) + nat n
    \<and> length (filter is_Timing (trace (snd (run_loop (Suc (nat n) + k) E options s))))
        = length (filter is_Timing (trace s)) + nat n
    \<and> filter is_Error (trace (snd (run_loop (Suc (nat n) + k) E options s)))
        = filter is_Error (trace s)
    \<and> filter is_Sleep (trace (snd (run_loop (Suc (nat n) + k) E options s)))
        = filter is_Sleep (trace s)"
proof -
  let ?k = "Suc (nat n) + k"
  let ?s' = "snd (run_loop ?k E options s)"
  have ob: "observers_behave E (loggers s)"
    using assms(6,8,9) by (simp add: observers_behave_def)
  have ceil: "count options ''max-queries'' \<longrightarrow>
      stol (opt options ''max-queries'') = Inr n \<and> queries_generated s \<le> n \<and> n < LONG_MAX
      \<and> (global_cerr_logger s \<longrightarrow> report_returns E)"
    using assms by simp
  from run_loop_visible [OF assms(7) test_succeeds_fails_only [OF assms(6)] ob ceil, of ?k]
  obtain passes where ps: "list_all (possible E) passes"
    and tr: "\<And>P. (\<forall>ev. P ev \<longrightarrow> visible ev) \<Longrightarrow>
          filter P (trace ?s')
            = filter P (trace s) @ filter P (concat (map (pass_events E (loggers s)) passes))"
    and res: "fst (run_loop ?k E options s) = Return 0" "length passes = nat n"
    using assms(1,5) by auto
  have ok: "\<And>p. p \<in> set passes \<Longrightarrow> fst (snd p) = None"
    using ps assms(6) by (auto simp: list_all_iff possible_def test_succeeds_def)
  have 1: "length (filter is_Statement (concat (map (pass_events E (loggers s)) passes)))
      = 1 * length passes"
    by (rule count_passes) auto
  have 2: "length (filter is_Test (concat (map (pass_events E (loggers s)) passes)))
      = 1 * length passes"
    by (rule count_passes) auto
  have 3: "length (filter is_Timing (concat (map (pass_events E (loggers s)) passes)))
      = 1 * length passes"
    by (rule count_passes) (use ok in fastforce)
  have 4: "filter is_Error (concat (map (pass_events E (loggers s)) passes)) = []"
    by (rule none_passes) (use ok in fastforce)
  have 5: "filter is_Sleep (concat (map (pass_events E (loggers s)) passes)) = []"
    by (rule none_passes) (use ok in fastforce)
  show ?thesis
    using res 1 2 3 4 5
      tr [of is_Statement] tr [of is_Test] tr [of is_Timing] tr [of is_Error] tr [of is_Sleep]
    by simp
qed

lemma demo_observers:
  "generated_returns demo_env ls" "executed_returns demo_env ls" "error_guarded demo_env ls"
  "report_returns demo_env"
  by (simp_all add: generated_returns_def executed_returns_def error_guarded_def
      report_returns_def demo_env_def)

lemma demo_state_simps [simp]:
  "queries_generated (demo_state sc) = 0" "loggers (demo_state sc) = [Impedance_feedback]"
  "global_cerr_logger (demo_state sc) = False" "trace (demo_state sc) = []"
  by (simp_all add: demo_state_def init_state_def)

lemma stol_2: "stol ''2'' = Inr 2"
  by code_simp

theorem ceiling_ends_run_witness:
  "fst (run_loop 3 (demo_env\<lparr>test := \<lambda>q w. (None, w)\<rparr>) [''max-queries'' \<mapsto> ''2''] (demo_state []))
      = Return 0
    \<and> length (filter is_Statement (trace (snd (run_loop 3 (demo_env\<lparr>test := \<lambda>q w. (None, w)\<rparr>)
        [''max-queries'' \<mapsto> ''2''] (demo_state []))))) = 2
    \<and> length (filter is_Test (trace (snd (run_loop 3 (demo_env\<lparr>test := \<lambda>q w. (None, w)\<rparr>)
        [''max-queries'' \<mapsto> ''2''] (demo_state []))))) = 2"
proof -
  let ?E = "demo_env\<lparr>test := \<lambda>q w. (None, w)\<rparr>"
  let ?o = "[''max-queries'' \<mapsto> ''2'']"
  have h1: "count ?o ''max-queries''" by (simp add: count_def)
  have h2: "stol (opt ?o ''max-queries'') = Inr 2" by (simp add: opt_def stol_2)
  have h3: "(0::int) \<le> 2" by simp
  have h4: "2 < LONG_MAX" by (simp add: LONG_MAX_def)
  have h5: "queries_generated (demo_state [] :: (demo_world, nat) state) = 0" by simp
  have h6: "test_succeeds ?E" by (simp add: test_succeeds_def)
  have h7: "factory_returns ?E" by (simp add: factory_returns_def demo_env_def)
  have h8: "generated_returns ?E (loggers (demo_state []))"
    by (simp add: generated_returns_def demo_env_def)
  have h9: "executed_returns ?E (loggers (demo_state []))"
    by (simp add: executed_returns_def demo_env_def)
  have h10: "global_cerr_logger (demo_state [] :: (demo_world, nat) state) \<longrightarrow> report_returns ?E"
    by simp
  from ceiling_ends_run [OF h1 h2 h3 h4 h5 h6 h7 h8 h9 h10, of 0]
  show ?thesis by simp
qed


text \<open>
  C9. The ceiling bounds the statements generated, whatever becomes of them. With the
  option \<^verbatim>\<open>max-queries\<close> set to \<open>n\<close> and a device under test that may reject any statement
  or lose its session on any statement, the run loop returns 0 after exactly \<open>n\<close> statements
  were generated and submitted; the counter is then \<open>n + 1\<close>, and at most \<open>n\<close> of the
  statements were executed successfully (with a timing written).
\<close>

theorem ceiling_counts_generated:
  assumes "count options ''max-queries''" and "stol (opt options ''max-queries'') = Inr n"
    and "0 \<le> n" and "n < LONG_MAX" and "queries_generated s = 0"
    and "test_fails_only E" and "factory_returns E"
    and "observers_behave E (loggers s)"
    and "global_cerr_logger s \<longrightarrow> report_returns E"
  shows "fst (run_loop (Suc (nat n) + k) E options s) = Return 0
    \<and> queries_generated (snd (run_loop (Suc (nat n) + k) E options s)) = n + 1
    \<and> length (filter is_Statement (trace (snd (run_loop (Suc (nat n) + k) E options s))))
        = length (filter is_Statement (trace s)) + nat n
    \<and> length (filter is_Test (trace (snd (run_loop (Suc (nat n) + k) E options s))))
        = length (filter is_Test (trace s)) + nat n
    \<and> length (filter is_Timing (trace (snd (run_loop (Suc (nat n) + k) E options s))))
        \<le> length (filter is_Timing (trace s)) + nat n"
proof -
  let ?k = "Suc (nat n) + k"
  let ?s' = "snd (run_loop ?k E options s)"
  have ceil: "count options ''max-queries'' \<longrightarrow>
      stol (opt options ''max-queries'') = Inr n \<and> queries_generated s \<le> n \<and> n < LONG_MAX
      \<and> (global_cerr_logger s \<longrightarrow> report_returns E)"
    using assms by simp
  from run_loop_visible [OF assms(7) assms(6) assms(8) ceil, of ?k]
  obtain passes where tr: "\<And>P. (\<forall>ev. P ev \<longrightarrow> visible ev) \<Longrightarrow>
          filter P (trace ?s')
            = filter P (trace s) @ filter P (concat (map (pass_events E (loggers s)) passes))"
    and res: "fst (run_loop ?k E options s) = Return 0" "length passes = nat n"
      "queries_generated ?s' = n + 1"
    using assms(1,5) by auto
  have 1: "length (filter is_Statement (concat (map (pass_events E (loggers s)) passes)))
      = 1 * length passes"
    by (rule count_passes) auto
  have 2: "length (filter is_Test (concat (map (pass_events E (loggers s)) passes)))
      = 1 * length passes"
    by (rule count_passes) auto
  have 3: "length (filter is_Timing (concat (map (pass_events E (loggers s)) passes)))
      \<le> 1 * length passes"
    by (rule count_passes_le) (auto split: option.splits)
  show ?thesis
    using res 1 2 3 tr [of is_Statement] tr [of is_Test] tr [of is_Timing]
    by simp
qed

text \<open>A device under test that rejects every other statement and loses its session on the rest.\<close>

lemma flaky_fails_only:
  "test_fails_only (demo_env\<lparr>test := \<lambda>q w.
     (if even (made w) then Some (Failure ''syntax error'') else Some (Broken ''server closed''),
      w)\<rparr>)"
  by (simp add: test_fails_only_def)

theorem ceiling_counts_generated_witness:
  "fst (run_loop 3 (demo_env\<lparr>test := \<lambda>q w.
          (if even (made w) then Some (Failure ''syntax error'')
           else Some (Broken ''server closed''), w)\<rparr>)
        [''max-queries'' \<mapsto> ''2''] (demo_state [])) = Return 0
    \<and> queries_generated (snd (run_loop 3 (demo_env\<lparr>test := \<lambda>q w.
          (if even (made w) then Some (Failure ''syntax error'')
           else Some (Broken ''server closed''), w)\<rparr>)
        [''max-queries'' \<mapsto> ''2''] (demo_state []))) = 3
    \<and> length (filter is_Statement (trace (snd (run_loop 3 (demo_env\<lparr>test := \<lambda>q w.
          (if even (made w) then Some (Failure ''syntax error'')
           else Some (Broken ''server closed''), w)\<rparr>)
        [''max-queries'' \<mapsto> ''2''] (demo_state []))))) = 2"
proof -
  let ?E = "demo_env\<lparr>test := \<lambda>q w.
     (if even (made w) then Some (Failure ''syntax error'') else Some (Broken ''server closed''),
      w)\<rparr>"
  let ?o = "[''max-queries'' \<mapsto> ''2'']"
  let ?s = "demo_state [] :: (demo_world, nat) state"
  have h1: "count ?o ''max-queries''" by (simp add: count_def)
  have h2: "stol (opt ?o ''max-queries'') = Inr 2" by (simp add: opt_def stol_2)
  have h3: "(0::int) \<le> 2" by simp
  have h4: "2 < LONG_MAX" by (simp add: LONG_MAX_def)
  have h5: "queries_generated ?s = 0" by simp
  have h6: "test_fails_only ?E" by (rule flaky_fails_only)
  have h7: "factory_returns ?E" by (simp add: factory_returns_def demo_env_def)
  have h8: "observers_behave ?E (loggers ?s)"
    by (simp add: observers_behave_def generated_returns_def executed_returns_def
        error_guarded_def demo_env_def)
  have h9: "global_cerr_logger ?s \<longrightarrow> report_returns ?E" by simp
  from ceiling_counts_generated [OF h1 h2 h3 h4 h5 h6 h7 h8 h9, of 0]
  show ?thesis by simp
qed

subsection \<open>Recovery without end\<close>

text \<open>
  C5. Without the option \<^verbatim>\<open>max-queries\<close> and with a device under test that loses its session
  on every statement, the run loop never ends: whatever the number \<open>k\<close> of passes, after
  \<open>k\<close> passes it is still running, has submitted \<open>k\<close> statements and has slept \<open>k\<close> times for
  1000 milliseconds.
\<close>

theorem recovery_unbounded:
  assumes "\<not> count options ''max-queries''" and "test_breaks E" and "factory_returns E"
    and "generated_returns E (loggers s)" and "error_guarded E (loggers s)"
  shows "fst (run_loop k E options s) = Running
    \<and> filter is_Sleep (trace (snd (run_loop k E options s)))
        = filter is_Sleep (trace s) @ replicate k (Sleep 1000)
    \<and> length (filter is_Test (trace (snd (run_loop k E options s))))
        = length (filter is_Test (trace s)) + k"
proof -
  let ?s' = "snd (run_loop k E options s)"
  have ob: "observers_behave E (loggers s)"
    using assms(2,4,5) by (simp add: observers_behave_def)
  have ceil: "count options ''max-queries'' \<longrightarrow>
      stol (opt options ''max-queries'') = Inr 0 \<and> queries_generated s \<le> 0 \<and> 0 < LONG_MAX
      \<and> (global_cerr_logger s \<longrightarrow> report_returns E)"
    using assms(1) by simp
  from run_loop_visible [OF assms(3) test_breaks_fails_only [OF assms(2)] ob ceil, of k]
  obtain passes where ps: "list_all (possible E) passes"
    and tr: "\<And>P. (\<forall>ev. P ev \<longrightarrow> visible ev) \<Longrightarrow>
          filter P (trace ?s')
            = filter P (trace s) @ filter P (concat (map (pass_events E (loggers s)) passes))"
    and res: "fst (run_loop k E options s) = Running" "length passes = k"
    using assms(1) by auto
  have br: "\<exists>m. fst (snd p) = Some (Broken m)" if "p \<in> set passes" for p
  proof -
    obtain gen r d where p: "p = (gen, r, d)" by (cases p)
    with ps that obtain w where "fst (test E (out E gen) w) = r"
      by (auto simp: list_all_iff possible_def)
    moreover from assms(2) obtain m where "fst (test E (out E gen) w) = Some (Broken m)"
      unfolding test_breaks_def by blast
    ultimately show ?thesis using p by auto
  qed
  have 1: "filter is_Sleep (concat (map (pass_events E (loggers s)) passes))
      = replicate (length passes) (Sleep 1000)"
  proof (rule replicate_passes)
    fix p assume "p \<in> set passes"
    from br [OF this] obtain m where "fst (snd p) = Some (Broken m)" ..
    then show "filter is_Sleep (pass_events E (loggers s) p) = [Sleep 1000]"
      by (cases p) simp
  qed
  have 2: "length (filter is_Test (concat (map (pass_events E (loggers s)) passes)))
      = 1 * length passes"
    by (rule count_passes) auto
  show ?thesis
    using res 1 2 tr [of is_Sleep] tr [of is_Test] by simp
qed

theorem recovery_unbounded_witness:
  "fst (run_loop 50 (demo_env\<lparr>test := \<lambda>q w. (Some (Broken ''server closed''), w)\<rparr>)
        Map.empty (demo_state [])) = Running
    \<and> filter is_Sleep (trace (snd (run_loop 50
          (demo_env\<lparr>test := \<lambda>q w. (Some (Broken ''server closed''), w)\<rparr>)
          Map.empty (demo_state [])))) = replicate 50 (Sleep 1000)"
proof -
  let ?E = "demo_env\<lparr>test := \<lambda>q w. (Some (Broken ''server closed''), w)\<rparr>"
  let ?s = "demo_state [] :: (demo_world, nat) state"
  have h1: "\<not> count Map.empty ''max-queries''" by (simp add: count_def)
  have h2: "test_breaks ?E" by (simp add: test_breaks_def)
  have h3: "factory_returns ?E" by (simp add: factory_returns_def demo_env_def)
  have h4: "generated_returns ?E (loggers ?s)"
    by (simp add: generated_returns_def demo_env_def)
  have h5: "error_guarded ?E (loggers ?s)"
    by (simp add: error_guarded_def demo_env_def)
  from recovery_unbounded [OF h1 h2 h3 h4 h5, of 50]
  show ?thesis by simp
qed


subsection \<open>Running \<^verbatim>\<open>main\<close>\<close>

lemma main_body_loop:
  assumes "fst (startup E options s) = Next" and "\<not> count options ''dry-run''"
    and "fst (make_dut E options (snd (startup E options s))) = Next"
  shows "main_body fuel E options s
    = run_loop fuel E options (emit (Open_file Allqueries) (emit (Open_file Qrylog)
        (snd (make_dut E options (snd (startup E options s))))))"
  using assms by (simp add: main_body_def seq_cases)

lemma main_body_dry:
  assumes "fst (startup E options s) = Next" and "count options ''dry-run''"
  shows "main_body fuel E options s = dry_run fuel E options (snd (startup E options s))"
  using assms by (simp add: main_body_def seq_cases)

lemma main_options:
  assumes "parse_options argv Map.empty
      (emit (Cerr (package_name E @ '' '' @ gitrev E @ endl)) (init_state w)) = (options, s)"
    and "\<not> count options ''help''" and "\<not> count options ''version''"
  shows "main fuel E argv w = catch_exception (main_body fuel E options s)"
  using assms by (simp add: main_def)

lemma opt_simps [simp]:
  "count Map.empty k = False"
  "count (options(k' \<mapsto> v)) k = (k = k' \<or> count options k)"
  "opt (options(k \<mapsto> v)) k = v"
  "k \<noteq> k' \<Longrightarrow> opt (options(k' \<mapsto> v)) k = opt options k"
  "opt Map.empty k = []"
  by (auto simp: count_def opt_def)

text \<open>The state in which \<^verbatim>\<open>main\<close> parses its arguments.\<close>

lemma parse_seed_0:
  "parse_options [''--seed=0''] Map.empty s = ([''seed'' \<mapsto> ''0''], s)"
  by (simp add: regex_match_opt_def option_names_def)


subsection \<open>Classification of the outcome of a test\<close>

lemma iteration_execute:
  "check_ceiling E options s0 = (Next, s1) \<Longrightarrow> generate E s1 = (Inr gen, s)
    \<Longrightarrow> iteration E options s0 = execute E gen s"
  by (simp add: iteration_def)

lemma filter_map_all: "(\<And>x. P (f x)) \<Longrightarrow> filter P (map f xs) = map f xs"
  by (induction xs) simp_all

lemma demo_generate: "fst (generate demo_env (demo_state sc)) = Inr 0"
  by (simp add: generate_def demo_env_def demo_state_def init_state_def demo_world_def
      call_def emit_def)

lemma demo_generate_pair:
  "generate demo_env (demo_state sc) = (Inr 0, snd (generate demo_env (demo_state sc)))"
  using demo_generate [of sc] by (simp add: prod_eq_iff)

lemma demo_generate_loggers [simp]:
  "loggers (snd (generate demo_env (demo_state sc))) = [Impedance_feedback]"
  using grows_loggers [OF grows_generate [of "demo_state sc" demo_env]] by simp

lemma demo_generate_script [simp]:
  "script (world (snd (generate demo_env (demo_state sc)))) = sc"
  by (simp add: generate_def demo_env_def demo_state_def init_state_def demo_world_def
      call_def emit_def)

lemma demo_test:
  "fst (test demo_env q (snd (clock demo_env w))) = (case script w of [] \<Rightarrow> None | r # rs \<Rightarrow> r)"
  by (simp add: demo_env_def split: list.splits)

text \<open>
  C6. A statement has been generated in a pass of the run loop (the ceiling is not reached
  and \<^verbatim>\<open>generate\<close> returned the tree \<open>gen\<close>), the \<^verbatim>\<open>executed\<close> hooks return and the \<^verbatim>\<open>error\<close> hooks
  throw at most a \<^verbatim>\<open>runtime_error\<close>. Then the outcome of the test decides: on success every
  logger is told \<^verbatim>\<open>executed\<close>, in order, and the loop goes to its next pass; on a failure
  that is not a broken session every logger is told \<^verbatim>\<open>error\<close> and the loop goes to its next
  pass; on a broken session every logger is told \<^verbatim>\<open>error\<close>, the failure leaves the inner
  loop and the outer loop sleeps before the next pass.
\<close>

theorem classification_dispatch:
  assumes "check_ceiling E options s0 = (Next, s1)" and "generate E s1 = (Inr gen, s)"
    and "executed_returns E (loggers s)" and "error_guarded E (loggers s)"
  shows "(fst (test E (out E gen) (snd (clock E (world s)))) = None \<longrightarrow>
        run_loop (Suc k) E options s0 = run_loop k E options (snd (execute E gen s))
        \<and> filter (\<lambda>ev. is_Executed ev \<or> is_Error ev) (trace (snd (execute E gen s)))
            = filter (\<lambda>ev. is_Executed ev \<or> is_Error ev) (trace s)
              @ map (\<lambda>l. Executed l gen) (loggers s))
    \<and> (\<forall>m. fst (test E (out E gen) (snd (clock E (world s)))) = Some (Failure m) \<longrightarrow>
        run_loop (Suc k) E options s0 = run_loop k E options (snd (execute E gen s))
        \<and> filter (\<lambda>ev. is_Executed ev \<or> is_Error ev) (trace (snd (execute E gen s)))
            = filter (\<lambda>ev. is_Executed ev \<or> is_Error ev) (trace s)
              @ map (\<lambda>l. Error l gen (Failure m)) (loggers s))
    \<and> (\<forall>m. fst (test E (out E gen) (snd (clock E (world s)))) = Some (Broken m) \<longrightarrow>
        run_loop (Suc k) E options s0
          = run_loop k E options (emit (Sleep 1000) (snd (execute E gen s)))
        \<and> filter (\<lambda>ev. is_Executed ev \<or> is_Error ev) (trace (snd (execute E gen s)))
            = filter (\<lambda>ev. is_Executed ev \<or> is_Error ev) (trace s)
              @ map (\<lambda>l. Error l gen (Broken m)) (loggers s))"
proof -
  let ?P = "\<lambda>ev :: 'b event. is_Executed ev \<or> is_Error ev"
  let ?r = "fst (test E (out E gen) (snd (clock E (world s))))"
  have it: "iteration E options s0 = execute E gen s"
    using assms(1,2) by (rule iteration_execute)
  have P: "\<forall>l m. \<not> ?P (Log_failed l m)" by simp
  have a: "run_loop (Suc k) E options s0 = run_loop k E options (snd (execute E gen s))
      \<and> filter ?P (trace (snd (execute E gen s)))
          = filter ?P (trace s) @ map (\<lambda>l. Executed l gen) (loggers s)"
    if "?r = None"
  proof -
    from execute_success [OF that assms(3)]
    obtain w where n: "fst (execute E gen s) = Next"
      and t: "trace (snd (execute E gen s)) = trace s @ submit_events E gen
          @ outcome_events E (loggers s) gen None (fst (clock E w) - fst (clock E (world s)))"
      by blast
    from n it have "run_loop (Suc k) E options s0 = run_loop k E options (snd (execute E gen s))"
      using run_loop_Next [of E options s0 k] by simp
    moreover from t have "filter ?P (trace (snd (execute E gen s)))
        = filter ?P (trace s) @ map (\<lambda>l. Executed l gen) (loggers s)"
      by (simp add: submit_events_def filter_map_all)
    ultimately show ?thesis ..
  qed
  have b: "fst (execute E gen s) = (if is_broken e then Throw e else Next)
      \<and> filter ?P (trace (snd (execute E gen s)))
          = filter ?P (trace s) @ map (\<lambda>l. Error l gen e) (loggers s)"
    if "?r = Some e" and "is_failure e" for e
    using execute_failure [where P = ?P, OF that assms(4) P, of 0]
    by (simp add: submit_events_def filter_map_all)
  have c: "run_loop (Suc k) E options s0 = run_loop k E options (snd (execute E gen s))
      \<and> filter ?P (trace (snd (execute E gen s)))
          = filter ?P (trace s) @ map (\<lambda>l. Error l gen (Failure m)) (loggers s)"
    if "?r = Some (Failure m)" for m
    using b [OF that] it run_loop_Next [of E options s0 k] by simp
  have d: "run_loop (Suc k) E options s0
        = run_loop k E options (emit (Sleep 1000) (snd (execute E gen s)))
      \<and> filter ?P (trace (snd (execute E gen s)))
          = filter ?P (trace s) @ map (\<lambda>l. Error l gen (Broken m)) (loggers s)"
    if "?r = Some (Broken m)" for m
    using b [OF that] it run_loop_Broken [of E options s0 "Broken m" k] by simp
  from a c d show ?thesis by blast
qed

theorem classification_dispatch_witness:
  "filter (\<lambda>ev. is_Executed ev \<or> is_Error ev)
      (trace (snd (execute demo_env 0 (snd (generate demo_env (demo_state [])))))) =
    filter (\<lambda>ev. is_Executed ev \<or> is_Error ev) (trace (snd (generate demo_env (demo_state []))))
      @ [Executed Impedance_feedback 0]
   \<and> filter (\<lambda>ev. is_Executed ev \<or> is_Error ev)
      (trace (snd (execute demo_env 0
        (snd (generate demo_env (demo_state [Some (Failure ''syntax error'')])))))) =
    filter (\<lambda>ev. is_Executed ev \<or> is_Error ev)
      (trace (snd (generate demo_env (demo_state [Some (Failure ''syntax error'')]))))
      @ [Error Impedance_feedback 0 (Failure ''syntax error'')]
   \<and> run_loop (Suc 0) demo_env Map.empty (demo_state [Some (Broken ''server closed'')])
      = run_loop 0 demo_env Map.empty (emit (Sleep 1000)
          (snd (execute demo_env 0
            (snd (generate demo_env (demo_state [Some (Broken ''server closed'')]))))))"
proof -
  have h1: "check_ceiling demo_env Map.empty (demo_state sc) = (Next, demo_state sc)" for sc
    by (simp add: check_ceiling_absent)
  have h3: "executed_returns demo_env (loggers (snd (generate demo_env (demo_state sc))))" for sc
    by (rule demo_observers)
  have h4: "error_guarded demo_env (loggers (snd (generate demo_env (demo_state sc))))" for sc
    by (rule demo_observers)
  note c = classification_dispatch [OF h1 demo_generate_pair h3 h4, of _ 0]
  from c [of "[]"] c [of "[Some (Failure ''syntax error'')]"]
    c [of "[Some (Broken ''server closed'')]"]
  show ?thesis
    by (simp add: demo_test del: run_loop.simps)
qed


subsection \<open>Timing\<close>

lemma try_block_failure:
  assumes "fst (test E (out E gen) (snd (clock E (world s)))) = Some e"
  shows "fst (try_block E gen s) = Some e"
    and "trace (snd (try_block E gen s)) = trace s @ submit_events E gen"
    and "loggers (snd (try_block E gen s)) = loggers s"
    and "world (snd (try_block E gen s)) = snd (test E (out E gen) (snd (clock E (world s))))"
  using assms by (simp_all add: try_block_def Let_def case_prod_beta submit_events_def)

lemma execute_no_timing:
  assumes "fst (test E (out E gen) (snd (clock E (world s)))) = Some e"
  shows "filter is_Timing (trace (snd (execute E gen s))) = filter is_Timing (trace s)"
proof -
  let ?s1 = "snd (try_block E gen s)"
  note tb = try_block_failure [OF assms]
  have t1: "filter is_Timing (trace ?s1) = filter is_Timing (trace s)"
    using tb(2) by (simp add: submit_events_def)
  have "filter is_Timing (trace (snd (notify_error E ls gen e ?s1))) = filter is_Timing (trace ?s1)"
    for ls
    by (rule grows_filter [OF notes_notify_error]) (auto simp: note_event_def)
  with t1 tb(1) show ?thesis
    by (simp add: execute_def case_prod_beta split: option.splits)
qed

lemma notify_executed_world:
  assumes "\<forall>l \<in> set ls. \<forall>w. fst (executed E l gen w) = None"
  shows "world (snd (notify_executed E ls gen s)) = executed_world E ls gen (world s)"
  using assms
proof (induction ls arbitrary: s)
  case Nil
  show ?case by (simp add: executed_world_def)
next
  case (Cons l ls)
  let ?c = "call (executed E l gen) (emit (Executed l gen) s)"
  from Cons.prems have "fst ?c = None" by simp
  then have eq: "notify_executed E (l # ls) gen s = notify_executed E ls gen (snd ?c)"
    by (cases ?c) simp
  from Cons.prems have "\<forall>l \<in> set ls. \<forall>w. fst (executed E l gen w) = None" by simp
  from Cons.IH [OF this, of "snd ?c"] eq show ?case
    by (simp add: executed_world_def)
qed

lemma execute_timed:
  assumes "fst (test E (out E gen) (snd (clock E (world s)))) = None"
    and "executed_returns E (loggers s)"
  shows "trace (snd (execute E gen s))
      = trace s @ submit_events E gen @ map (\<lambda>l. Executed l gen) (loggers s)
        @ [Timing (fst (clock E (executed_world E (loggers s) gen
                      (snd (test E (out E gen) (snd (clock E (world s)))))))
                   - fst (clock E (world s))),
           Write_file Qrylog (out E gen @ '';'' @ endl)]"
proof -
  let ?sql = "out E gen"
  let ?s1 = "emit (Write_file Qrycur (?sql @ '';'' @ endl)) (emit (Open_file Qrycur) s)"
  let ?c0 = "clock E (world s)"
  let ?s2 = "snd (call (test E ?sql) (emit (Test ?sql) (?s1\<lparr>world := snd ?c0\<rparr>)))"
  let ?s3 = "snd (notify_executed E (loggers s) gen ?s2)"
  have l2: "loggers ?s2 = loggers s" by simp
  have w2: "world ?s2 = snd (test E ?sql (snd ?c0))" by simp
  from assms(2) have ex: "\<forall>l \<in> set (loggers s). \<forall>w. fst (executed E l gen w) = None"
    by (simp add: executed_returns_def)
  from notify_executed_returns [OF ex, of ?s2]
  have n: "fst (notify_executed E (loggers s) gen ?s2) = None"
    and t3: "trace ?s3 = trace s @ submit_events E gen @ map (\<lambda>l. Executed l gen) (loggers s)"
    by (simp_all add: submit_events_def)
  from notify_executed_world [OF ex, of ?s2]
  have w3: "world ?s3 = executed_world E (loggers s) gen (snd (test E ?sql (snd ?c0)))"
    by (simp add: w2)
  from assms(1) have c: "fst (call (test E ?sql) (emit (Test ?sql) (?s1\<lparr>world := snd ?c0\<rparr>))) = None"
    by simp
  show ?thesis
    using c n t3 w3
    by (simp add: execute_def try_block_def Let_def case_prod_beta l2)
qed

text \<open>
  C7, as the driver has it. When the test of a statement succeeds and the \<^verbatim>\<open>executed\<close> hooks
  return, the pass writes, after telling the loggers, two lines to ssquery.log: the time
  from the clock reading taken before the test to the clock reading taken in the world
  that the test and then the \<^verbatim>\<open>executed\<close> hooks have left, and the statement. When the
  test throws, the pass writes no timing at all.
\<close>

theorem timing_on_success_only:
  "(fst (test E (out E gen) (snd (clock E (world s)))) = None \<and> executed_returns E (loggers s)
      \<longrightarrow> trace (snd (execute E gen s))
            = trace s @ submit_events E gen @ map (\<lambda>l. Executed l gen) (loggers s)
              @ [Timing (fst (clock E (executed_world E (loggers s) gen
                            (snd (test E (out E gen) (snd (clock E (world s)))))))
                         - fst (clock E (world s))),
                 Write_file Qrylog (out E gen @ '';'' @ endl)])
   \<and> (\<forall>e. fst (test E (out E gen) (snd (clock E (world s)))) = Some e
      \<longrightarrow> filter is_Timing (trace (snd (execute E gen s))) = filter is_Timing (trace s))"
proof (intro conjI impI allI)
  assume "fst (test E (out E gen) (snd (clock E (world s)))) = None
    \<and> executed_returns E (loggers s)"
  then show "trace (snd (execute E gen s))
      = trace s @ submit_events E gen @ map (\<lambda>l. Executed l gen) (loggers s)
        @ [Timing (fst (clock E (executed_world E (loggers s) gen
                      (snd (test E (out E gen) (snd (clock E (world s)))))))
                   - fst (clock E (world s))),
           Write_file Qrylog (out E gen @ '';'' @ endl)]"
    using execute_timed [of E gen s] by blast
next
  fix e
  assume "fst (test E (out E gen) (snd (clock E (world s)))) = Some e"
  then show "filter is_Timing (trace (snd (execute E gen s))) = filter is_Timing (trace s)"
    by (rule execute_no_timing)
qed

text \<open>
  A run of the theorem: the clock advances by five ticks per reading, the test takes two
  ticks and the \<^verbatim>\<open>executed\<close> hook of the logger three, so the time written is ten ticks.
\<close>

theorem timing_on_success_only_witness:
  "trace (snd (execute slow_env 0 (demo_state [])))
      = [Open_file Qrycur, Write_file Qrycur (''select ;'' @ endl), Test ''select '',
         Executed Impedance_feedback 0, Timing 10, Write_file Qrylog (''select ;'' @ endl)]
   \<and> filter is_Timing (trace (snd (execute slow_env 0 (demo_state [Some (Failure ''syntax error'')]))))
      = filter is_Timing (trace (demo_state [Some (Failure ''syntax error'')]))"
proof -
  have t: "script (world (demo_state sc)) = sc" for sc
    by (simp add: demo_state_def init_state_def demo_world_def)
  have h1: "fst (test slow_env (out slow_env 0) (snd (clock slow_env (world (demo_state [])))))
      = None"
    by (simp add: slow_env_def demo_env_def t)
  have h2: "executed_returns slow_env (loggers (demo_state []))"
    by (simp add: executed_returns_def slow_env_def)
  have h3: "fst (test slow_env (out slow_env 0)
      (snd (clock slow_env (world (demo_state [Some (Failure ''syntax error'')])))))
      = Some (Failure ''syntax error'')"
    by (simp add: slow_env_def demo_env_def t)
  from timing_on_success_only [of slow_env 0 "demo_state []"] h1 h2
  have a: "trace (snd (execute slow_env 0 (demo_state [])))
      = trace (demo_state []) @ submit_events slow_env 0
        @ map (\<lambda>l. Executed l 0) (loggers (demo_state []))
        @ [Timing (fst (clock slow_env (executed_world slow_env (loggers (demo_state [])) 0
                      (snd (test slow_env (out slow_env 0)
                        (snd (clock slow_env (world (demo_state []))))))))
                   - fst (clock slow_env (world (demo_state [])))),
           Write_file Qrylog (out slow_env 0 @ '';'' @ endl)]"
    by blast
  from timing_on_success_only [of slow_env 0 "demo_state [Some (Failure ''syntax error'')]"] h3
  have b: "filter is_Timing
      (trace (snd (execute slow_env 0 (demo_state [Some (Failure ''syntax error'')]))))
      = filter is_Timing (trace (demo_state [Some (Failure ''syntax error'')]))"
    by blast
  from a have "trace (snd (execute slow_env 0 (demo_state [])))
      = [Open_file Qrycur, Write_file Qrycur (''select ;'' @ endl), Test ''select '',
         Executed Impedance_feedback 0, Timing 10, Write_file Qrylog (''select ;'' @ endl)]"
    by (simp add: slow_env_def demo_env_def demo_state_def init_state_def demo_world_def
        submit_events_def executed_world_def)
  with b show ?thesis by blast
qed

text \<open>
  C7 as the specification has it fails: in a run whose first statement is rejected the
  failure is reported to the logger, and no timing is written for it.
\<close>

theorem timing_counterexample:
  "fst (run_loop 1 demo_env Map.empty (demo_state [Some (Failure ''syntax error'')])) = Running
   \<and> filter outcome_event
        (trace (snd (run_loop 1 demo_env Map.empty (demo_state [Some (Failure ''syntax error'')]))))
      = [Test ''select '', Error Impedance_feedback 0 (Failure ''syntax error'')]"
  by code_simp


subsection \<open>Failing observers\<close>

lemma notify_error_exact:
  assumes "\<forall>l \<in> set ls. \<forall>w x. fst (error E l gen e w) = Some x \<longrightarrow> is_runtime_error x"
  shows "fst (notify_error E ls gen e s) = None
    \<and> trace (snd (notify_error E ls gen e s)) = trace s @ error_events E ls gen e (world s)
    \<and> world (snd (notify_error E ls gen e s)) = error_world E ls gen e (world s)"
  using assms
proof (induction ls arbitrary: s)
  case Nil
  show ?case by (simp add: error_world_def)
next
  case (Cons l ls)
  let ?c = "call (error E l gen e) (emit (Error l gen e) s)"
  from Cons.prems
  have rest: "\<forall>l \<in> set ls. \<forall>w x. fst (error E l gen e w) = Some x \<longrightarrow> is_runtime_error x"
    by simp
  have fc: "fst ?c = fst (error E l gen e (world s))" by simp
  have wc: "world (snd ?c) = snd (error E l gen e (world s))" by simp
  have tc: "trace (snd ?c) = trace s @ [Error l gen e]" by simp
  show ?case
  proof (cases "fst ?c")
    case None
    then have eq: "notify_error E (l # ls) gen e s = notify_error E ls gen e (snd ?c)"
      by (cases ?c) simp
    from None fc have n: "fst (error E l gen e (world s)) = None" by simp
    from Cons.IH [OF rest, of "snd ?c"] show ?thesis
      unfolding eq by (simp add: n wc tc error_world_def)
  next
    case (Some x)
    with Cons.prems fc have rt: "is_runtime_error x" by simp
    let ?s = "emit (Log_failed l (what x)) (snd ?c)"
    from Some rt have eq: "notify_error E (l # ls) gen e s = notify_error E ls gen e ?s"
      by (cases ?c) simp
    from Some fc have n: "fst (error E l gen e (world s)) = Some x" by simp
    have ws: "world ?s = snd (error E l gen e (world s))" using wc by simp
    have ts: "trace ?s = trace s @ [Error l gen e, Log_failed l (what x)]" using tc by simp
    from Cons.IH [OF rest, of ?s] show ?thesis
      unfolding eq by (simp add: n ws ts error_world_def)
  qed
qed

lemma error_events_told:
  "filter is_Error (error_events E ls gen e w) = map (\<lambda>l. Error l gen e) ls"
  by (induction ls arbitrary: w) (simp_all split: option.splits)

lemma error_world_Cons:
  "error_world E (l # ls) gen e w = error_world E ls gen e (snd (error E l gen e w))"
  by (simp add: error_world_def)

lemma error_events_surfaced:
  assumes "i < length ls"
    and "fst (error E (ls ! i) gen e (error_world E (take i ls) gen e w)) = Some x"
  shows "Log_failed (ls ! i) (what x) \<in> set (error_events E ls gen e w)"
  using assms
proof (induction ls arbitrary: i w)
  case Nil
  then show ?case by simp
next
  case (Cons l ls)
  show ?case
  proof (cases i)
    case 0
    with Cons.prems(2) have "fst (error E l gen e w) = Some x"
      by (simp add: error_world_def)
    with 0 show ?thesis by simp
  next
    case (Suc j)
    with Cons.prems have "j < length ls"
      and "fst (error E (ls ! j) gen e
            (error_world E (take j ls) gen e (snd (error E l gen e w)))) = Some x"
      by (simp_all add: error_world_Cons)
    from Cons.IH [OF this] Suc show ?thesis by simp
  qed
qed

text \<open>
  C3, as the driver has it. A test has thrown a \<^verbatim>\<open>dut::failure\<close> and the \<^verbatim>\<open>error\<close> hooks of
  the loggers throw nothing but \<^verbatim>\<open>runtime_error\<close>. Then the pass does exactly this: every
  logger is told \<^verbatim>\<open>error\<close> once, in order, in the world that the hooks before it have left,
  also after a hook has thrown; whenever a hook throws, what its exception says is printed
  on \<^verbatim>\<open>cerr\<close> before the next logger is told; and the pass ends as it would without the
  throwing hooks, the run loop going on with its next pass, after the sleep when the
  session is broken. In particular every logger is told, and for every logger whose hook
  throws in the world in which it is called the message is on \<^verbatim>\<open>cerr\<close>.
\<close>

theorem error_hook_failure_isolated:
  assumes "fst (test E (out E gen) (snd (clock E (world s)))) = Some e" and "is_failure e"
    and "error_guarded E (loggers s)"
  shows "fst (execute E gen s) = (if is_broken e then Throw e else Next)
    \<and> trace (snd (execute E gen s))
        = trace s @ submit_events E gen
          @ error_events E (loggers s) gen e (snd (test E (out E gen) (snd (clock E (world s)))))
    \<and> world (snd (execute E gen s))
        = error_world E (loggers s) gen e (snd (test E (out E gen) (snd (clock E (world s)))))
    \<and> filter is_Error (trace (snd (execute E gen s)))
        = filter is_Error (trace s) @ map (\<lambda>l. Error l gen e) (loggers s)
    \<and> (\<forall>i < length (loggers s). \<forall>x.
          fst (error E (loggers s ! i) gen e
                (error_world E (take i (loggers s)) gen e
                   (snd (test E (out E gen) (snd (clock E (world s))))))) = Some x
          \<longrightarrow> Log_failed (loggers s ! i) (what x) \<in> set (trace (snd (execute E gen s))))
    \<and> (check_ceiling E options s0 = (Next, s1) \<and> generate E s1 = (Inr gen, s) \<longrightarrow>
          run_loop (Suc k) E options s0
            = run_loop k E options
                (if is_broken e then emit (Sleep 1000) (snd (execute E gen s))
                 else snd (execute E gen s)))"
proof -
  let ?s1 = "snd (try_block E gen s)"
  let ?w = "snd (test E (out E gen) (snd (clock E (world s))))"
  note tb = try_block_failure [OF assms(1)]
  have g: "\<forall>l \<in> set (loggers s). \<forall>w x. fst (error E l gen e w) = Some x \<longrightarrow> is_runtime_error x"
    using assms(3) by (simp add: error_guarded_def)
  from notify_error_exact [OF g, of ?s1]
  have n: "fst (notify_error E (loggers s) gen e ?s1) = None"
    and nt: "trace (snd (notify_error E (loggers s) gen e ?s1))
        = trace s @ submit_events E gen @ error_events E (loggers s) gen e ?w"
    and nw: "world (snd (notify_error E (loggers s) gen e ?s1)) = error_world E (loggers s) gen e ?w"
    by (simp_all add: tb)
  have ex: "execute E gen s
      = (if is_broken e then Throw e else Next, snd (notify_error E (loggers s) gen e ?s1))"
    using tb(1,3) assms(2) n by (simp add: execute_def case_prod_beta)
  have 1: "fst (execute E gen s) = (if is_broken e then Throw e else Next)"
    by (simp add: ex)
  have 2: "trace (snd (execute E gen s))
      = trace s @ submit_events E gen @ error_events E (loggers s) gen e ?w"
    by (simp add: ex nt)
  have 3: "world (snd (execute E gen s)) = error_world E (loggers s) gen e ?w"
    by (simp add: ex nw)
  have 4: "filter is_Error (trace (snd (execute E gen s)))
      = filter is_Error (trace s) @ map (\<lambda>l. Error l gen e) (loggers s)"
    unfolding 2 by (simp add: submit_events_def error_events_told)
  have 5: "run_loop (Suc k) E options s0
      = run_loop k E options
          (if is_broken e then emit (Sleep 1000) (snd (execute E gen s))
           else snd (execute E gen s))"
    if "check_ceiling E options s0 = (Next, s1) \<and> generate E s1 = (Inr gen, s)"
  proof -
    from that iteration_execute [of E options s0 s1 gen s]
    have it: "iteration E options s0 = execute E gen s"
      by blast
    show ?thesis
    proof (cases "is_broken e")
      case True
      with 1 it run_loop_Broken [of E options s0 e k] show ?thesis by simp
    next
      case False
      with 1 it run_loop_Next [of E options s0 k] show ?thesis by simp
    qed
  qed
  have 6: "\<forall>i < length (loggers s). \<forall>x.
      fst (error E (loggers s ! i) gen e (error_world E (take i (loggers s)) gen e ?w)) = Some x
      \<longrightarrow> Log_failed (loggers s ! i) (what x) \<in> set (trace (snd (execute E gen s)))"
    unfolding 2 using error_events_surfaced [of _ "loggers s" E gen e ?w] by simp
  from 1 2 3 4 5 6 show ?thesis by blast
qed

text \<open>
  A run of the theorem: the hook of the first logger fails once. Its message is printed,
  the second logger is told, and the run loop goes on with its next pass.
\<close>

theorem error_hook_failure_isolated_witness:
  "fst (execute fails_once 0 (snd (generate fails_once verbose_state))) = Next
   \<and> trace (snd (execute fails_once 0 (snd (generate fails_once verbose_state))))
      = [Statement 0, Generated Impedance_feedback 0, Generated Cerr_logger 0,
         Write_file Allqueries (''select ;'' @ endl),
         Open_file Qrycur, Write_file Qrycur (''select ;'' @ endl), Test ''select '',
         Error Impedance_feedback 0 (Failure ''syntax error''),
         Log_failed Impedance_feedback ''log database down'',
         Error Cerr_logger 0 (Failure ''syntax error'')]
   \<and> Log_failed Impedance_feedback ''log database down''
        \<in> set (trace (snd (execute fails_once 0 (snd (generate fails_once verbose_state)))))
   \<and> run_loop (Suc 3) fails_once Map.empty verbose_state
      = run_loop 3 fails_once Map.empty
          (snd (execute fails_once 0 (snd (generate fails_once verbose_state))))"
proof -
  let ?s = "snd (generate fails_once verbose_state)"
  let ?e = "Failure ''syntax error''"
  have gen: "generate fails_once verbose_state = (Inr 0, ?s)"
    by (simp add: prod_eq_iff generate_def fails_once_def demo_env_def verbose_state_def
        init_state_def demo_world_def call_def emit_def)
  have w: "world ?s = \<lparr>script = [Some ?e], made = 1, ticks = 100\<rparr>"
    by (simp add: generate_def fails_once_def demo_env_def verbose_state_def
        init_state_def demo_world_def call_def emit_def)
  have l: "loggers ?s = [Impedance_feedback, Cerr_logger]"
    using grows_loggers [OF grows_generate [of verbose_state fails_once]]
    by (simp add: verbose_state_def)
  have tr: "trace ?s = [Statement 0, Generated Impedance_feedback 0, Generated Cerr_logger 0,
      Write_file Allqueries (''select ;'' @ endl)]"
    by (simp add: generate_def fails_once_def demo_env_def verbose_state_def
        init_state_def demo_world_def call_def emit_def)
  have h0: "check_ceiling fails_once Map.empty verbose_state = (Next, verbose_state)"
    by (simp add: check_ceiling_absent)
  have env: "test fails_once = test demo_env" "clock fails_once = clock demo_env"
    "out fails_once = out demo_env"
    "error fails_once = (\<lambda>l p e w.
       (if l = Impedance_feedback \<and> ticks w < 106 then Some (RuntimeError ''log database down'')
        else None, w\<lparr>ticks := ticks w + 1\<rparr>))"
    by (simp_all add: fails_once_def)
  have h1: "fst (test fails_once (out fails_once 0) (snd (clock fails_once (world ?s)))) = Some ?e"
    unfolding env w by (simp add: demo_env_def)
  have h2: "is_failure ?e" by simp
  have h3: "error_guarded fails_once (loggers ?s)"
    unfolding env error_guarded_def by simp
  have ev: "error_events fails_once (loggers ?s) 0 ?e
      (snd (test fails_once (out fails_once 0) (snd (clock fails_once (world ?s)))))
    = [Error Impedance_feedback 0 ?e, Log_failed Impedance_feedback ''log database down'',
       Error Cerr_logger 0 ?e]"
    by (simp add: env w l demo_env_def)
  have su: "submit_events fails_once 0
    = [Open_file Qrycur, Write_file Qrycur (''select ;'' @ endl), Test ''select '']"
    unfolding submit_events_def env by (simp add: demo_env_def)
  have h4: "(0::nat) < length (loggers ?s)" by (simp add: l)
  have h5: "fst (error fails_once (loggers ?s ! 0) 0 ?e
      (error_world fails_once (take 0 (loggers ?s)) 0 ?e
        (snd (test fails_once (out fails_once 0) (snd (clock fails_once (world ?s)))))))
    = Some (RuntimeError ''log database down'')"
    by (simp add: env w l demo_env_def error_world_def)
  note th = error_hook_failure_isolated [OF h1 h2 h3, of Map.empty verbose_state verbose_state 3]
  from th h4 h5
  have "Log_failed (loggers ?s ! 0) (what (RuntimeError ''log database down''))
      \<in> set (trace (snd (execute fails_once 0 ?s)))"
    by blast
  then have m: "Log_failed Impedance_feedback ''log database down''
      \<in> set (trace (snd (execute fails_once 0 ?s)))"
    by (simp add: l)
  from th h0 gen
  have "fst (execute fails_once 0 ?s) = Next
    \<and> trace (snd (execute fails_once 0 ?s))
      = [Statement 0, Generated Impedance_feedback 0, Generated Cerr_logger 0,
         Write_file Allqueries (''select ;'' @ endl),
         Open_file Qrycur, Write_file Qrycur (''select ;'' @ endl), Test ''select '',
         Error Impedance_feedback 0 (Failure ''syntax error''),
         Log_failed Impedance_feedback ''log database down'',
         Error Cerr_logger 0 (Failure ''syntax error'')]
    \<and> run_loop (Suc 3) fails_once Map.empty verbose_state
      = run_loop 3 fails_once Map.empty (snd (execute fails_once 0 ?s))"
    by (simp add: ev su tr del: run_loop.simps)
  with m show ?thesis by blast
qed

text \<open>Two runs of \<^verbatim>\<open>main\<close> with \<^verbatim>\<open>--verbose\<close> in which a hook of the first logger fails.\<close>

lemma parse_verbose:
  "parse_options [''--verbose''] Map.empty s = ([''verbose'' \<mapsto> []], s)"
  by (simp add: regex_match_opt_def option_names_def)

lemma generated_throws_run:
  "fst (main 5 generated_throws [''--verbose''] (demo_world [])) = Return 1
   \<and> loggers (snd (main 5 generated_throws [''--verbose''] (demo_world [])))
      = [Impedance_feedback, Cerr_logger]
   \<and> filter observer_event (trace (snd (main 5 generated_throws [''--verbose''] (demo_world []))))
      = [Statement 7, Generated Impedance_feedback 7]"
proof -
  let ?o = "[''verbose'' \<mapsto> []]"
  let ?E = generated_throws
  let ?s0 = "emit (Cerr (package_name ?E @ '' '' @ gitrev ?E @ endl))
    (init_state (demo_world [])) :: (demo_world, nat) state"
  let ?r = "catch_exception (run_loop 5 ?E ?o
      (emit (Open_file Allqueries) (emit (Open_file Qrylog)
        (snd (make_dut ?E ?o (snd (startup ?E ?o ?s0)))))))"
  have s: "fst (startup ?E ?o ?s0) = Next" by code_simp
  have d: "fst (make_dut ?E ?o (snd (startup ?E ?o ?s0))) = Next" by code_simp
  have "main 5 ?E [''--verbose''] (demo_world []) = catch_exception (main_body 5 ?E ?o ?s0)"
    by (rule main_options [OF parse_verbose]) simp_all
  with main_body_loop [OF s _ d, of 5]
  have m: "main 5 ?E [''--verbose''] (demo_world []) = ?r" by simp
  have "fst ?r = Return 1 \<and> loggers (snd ?r) = [Impedance_feedback, Cerr_logger]
      \<and> filter observer_event (trace (snd ?r)) = [Statement 7, Generated Impedance_feedback 7]"
    by code_simp
  then show ?thesis unfolding m .
qed

lemma error_throws_run:
  "fst (main 5 error_throws [''--verbose''] (demo_world [Some (Failure ''syntax error'')]))
      = Return 1
   \<and> filter observer_event
        (trace (snd (main 5 error_throws [''--verbose''] (demo_world [Some (Failure ''syntax error'')]))))
      = [Statement 7, Generated Impedance_feedback 7, Generated Cerr_logger 7,
         Test ''select 1111111'', Error Impedance_feedback 7 (Failure ''syntax error'')]"
proof -
  let ?o = "[''verbose'' \<mapsto> []]"
  let ?F = error_throws
  let ?w = "demo_world [Some (Failure ''syntax error'')]"
  let ?t0 = "emit (Cerr (package_name ?F @ '' '' @ gitrev ?F @ endl))
    (init_state ?w) :: (demo_world, nat) state"
  let ?q = "catch_exception (run_loop 5 ?F ?o
      (emit (Open_file Allqueries) (emit (Open_file Qrylog)
        (snd (make_dut ?F ?o (snd (startup ?F ?o ?t0)))))))"
  have s': "fst (startup ?F ?o ?t0) = Next" by code_simp
  have d': "fst (make_dut ?F ?o (snd (startup ?F ?o ?t0))) = Next" by code_simp
  have "main 5 ?F [''--verbose''] ?w = catch_exception (main_body 5 ?F ?o ?t0)"
    by (rule main_options [OF parse_verbose]) simp_all
  with main_body_loop [OF s' _ d', of 5]
  have m': "main 5 ?F [''--verbose''] ?w = ?q" by simp
  have "fst ?q = Return 1
      \<and> filter observer_event (trace (snd ?q))
        = [Statement 7, Generated Impedance_feedback 7, Generated Cerr_logger 7,
           Test ''select 1111111'', Error Impedance_feedback 7 (Failure ''syntax error'')]"
    by code_simp
  then show ?thesis unfolding m' .
qed

text \<open>
  C3 as the specification has it fails, with two loggers (\<^verbatim>\<open>--verbose\<close>) of which the first
  has a failing hook. When its \<^verbatim>\<open>generated\<close> hook throws a \<^verbatim>\<open>runtime_error\<close>, the second
  logger is not told about the statement, no statement is executed and \<^verbatim>\<open>main\<close> returns 1.
  When the first statement is rejected and its \<^verbatim>\<open>error\<close> hook throws an exception that is
  not a \<^verbatim>\<open>runtime_error\<close>, the second logger is not told about the error, nothing is printed
  about the hook and \<^verbatim>\<open>main\<close> returns 1.
\<close>

theorem observer_failure_counterexample:
  "fst (main 5 generated_throws [''--verbose''] (demo_world [])) = Return 1
   \<and> loggers (snd (main 5 generated_throws [''--verbose''] (demo_world [])))
      = [Impedance_feedback, Cerr_logger]
   \<and> filter observer_event (trace (snd (main 5 generated_throws [''--verbose''] (demo_world []))))
      = [Statement 7, Generated Impedance_feedback 7]
   \<and> fst (main 5 error_throws [''--verbose''] (demo_world [Some (Failure ''syntax error'')]))
      = Return 1
   \<and> filter observer_event
        (trace (snd (main 5 error_throws [''--verbose''] (demo_world [Some (Failure ''syntax error'')]))))
      = [Statement 7, Generated Impedance_feedback 7, Generated Cerr_logger 7,
         Test ''select 1111111'', Error Impedance_feedback 7 (Failure ''syntax error'')]"
  using generated_throws_run error_throws_run by blast


subsection \<open>Recovery from a broken session\<close>

lemma loop_event_no_dut: "loop_event ev \<Longrightarrow> \<not> is_Dut_new ev"
  by (cases ev) simp_all

lemma run_loop_no_dut:
  "filter is_Dut_new (trace (snd (run_loop k E options s))) = filter is_Dut_new (trace s)"
  using grows_run_loop loop_event_no_dut by (rule grows_filter)

text \<open>
  C2, as the driver has it. When the test of a statement throws \<^verbatim>\<open>dut::broken\<close> (and the
  \<^verbatim>\<open>error\<close> hooks throw at most a \<^verbatim>\<open>runtime_error\<close>), the run loop sleeps for 1000
  milliseconds and goes on with its next pass in the world the failed test and the hooks
  left behind. The run loop itself constructs no device under test, neither in this pass
  nor in any later one: the object built before the loop is used throughout.
\<close>

theorem broken_session_recovery:
  assumes "check_ceiling E options s0 = (Next, s1)" and "generate E s1 = (Inr gen, s)"
    and "fst (test E (out E gen) (snd (clock E (world s)))) = Some (Broken m)"
    and "error_guarded E (loggers s)"
  shows "run_loop (Suc k) E options s0
      = run_loop k E options (emit (Sleep 1000) (snd (execute E gen s)))
    \<and> world (emit (Sleep 1000) (snd (execute E gen s))) = world (snd (execute E gen s))
    \<and> filter is_Dut_new (trace (snd (run_loop (Suc k) E options s0)))
        = filter is_Dut_new (trace s0)"
proof -
  have it: "iteration E options s0 = execute E gen s"
    using assms(1,2) by (rule iteration_execute)
  have P: "\<forall>l m. \<not> is_Error (Log_failed l m :: 'b event)" by simp
  from execute_failure [where P = is_Error, OF assms(3) _ assms(4) P, of 0]
  have "fst (execute E gen s) = Throw (Broken m)" by simp
  with it have "run_loop (Suc k) E options s0
      = run_loop k E options (emit (Sleep 1000) (snd (execute E gen s)))"
    using run_loop_Broken [of E options s0 "Broken m" k] by simp
  then show ?thesis
    using run_loop_no_dut [of "Suc k" E options s0] by simp
qed

theorem broken_session_recovery_witness:
  "run_loop (Suc 1) demo_env Map.empty (demo_state [Some (Broken ''server closed'')])
      = run_loop 1 demo_env Map.empty (emit (Sleep 1000)
          (snd (execute demo_env 0
            (snd (generate demo_env (demo_state [Some (Broken ''server closed'')]))))))
   \<and> filter is_Dut_new (trace (snd (run_loop (Suc 1) demo_env Map.empty
        (demo_state [Some (Broken ''server closed'')]))))
      = filter is_Dut_new (trace (demo_state [Some (Broken ''server closed'')]))"
proof -
  let ?sc = "[Some (Broken ''server closed'')]"
  have h1: "check_ceiling demo_env Map.empty (demo_state ?sc) = (Next, demo_state ?sc)"
    by (simp add: check_ceiling_absent)
  have h3: "fst (test demo_env (out demo_env 0)
      (snd (clock demo_env (world (snd (generate demo_env (demo_state ?sc)))))))
      = Some (Broken ''server closed'')"
    by (simp add: demo_test)
  have h4: "error_guarded demo_env (loggers (snd (generate demo_env (demo_state ?sc))))"
    by (rule demo_observers)
  from broken_session_recovery [OF h1 demo_generate_pair h3 h4, of 1]
  show ?thesis by blast
qed

text \<open>
  C2 as the specification has it fails: in a run whose first statement breaks the
  session, \<^verbatim>\<open>main\<close> constructs the device under test once, before the first statement;
  between the sleep and the second test nothing is constructed, and the second test is
  made on the object that the first one left.
\<close>

theorem session_counterexample:
  "fst (main 2 demo_env [''--seed=0''] (demo_world [Some (Broken ''server closed'')])) = Running
   \<and> filter harness_event
        (trace (snd (main 2 demo_env [''--seed=0''] (demo_world [Some (Broken ''server closed'')]))))
      = [Dut_new Postgres [], Test ''select '', Sleep 1000, Test ''select 1'']"
proof -
  let ?o = "[''seed'' \<mapsto> ''0'']"
  let ?w = "demo_world [Some (Broken ''server closed'')]"
  let ?s0 = "emit (Cerr (package_name demo_env @ '' '' @ gitrev demo_env @ endl))
    (init_state ?w) :: (demo_world, nat) state"
  let ?r = "catch_exception (run_loop 2 demo_env ?o
      (emit (Open_file Allqueries) (emit (Open_file Qrylog)
        (snd (make_dut demo_env ?o (snd (startup demo_env ?o ?s0)))))))"
  have s: "fst (startup demo_env ?o ?s0) = Next" by code_simp
  have d: "fst (make_dut demo_env ?o (snd (startup demo_env ?o ?s0))) = Next" by code_simp
  have "main 2 demo_env [''--seed=0''] ?w = catch_exception (main_body 2 demo_env ?o ?s0)"
    by (rule main_options [OF parse_seed_0]) simp_all
  with main_body_loop [OF s _ d, of 2]
  have m: "main 2 demo_env [''--seed=0''] ?w = ?r" by simp
  have "fst ?r = Running
      \<and> filter harness_event (trace (snd ?r))
        = [Dut_new Postgres [], Test ''select '', Sleep 1000, Test ''select 1'']"
    by code_simp
  then show ?thesis unfolding m .
qed


subsection \<open>Exit status\<close>

lemma seq_Return:
  "fst (seq r f) = Return c \<Longrightarrow> fst r = Return c \<or> fst r = Next \<and> fst (f (snd r)) = Return c"
  by (cases r) (auto simp: seq_def split: flow.splits)

lemma seq_not_Return:
  "fst r \<noteq> Return c \<Longrightarrow> (\<And>s. fst (f s) \<noteq> Return c) \<Longrightarrow> fst (seq r f) \<noteq> Return c"
  using seq_Return by blast

lemma if_not_Return:
  "fst x \<noteq> Return c \<Longrightarrow> fst y \<noteq> Return c \<Longrightarrow> fst (if b then x else y) \<noteq> Return c"
  by simp

lemma Next_not_Return: "fst (Next, s) \<noteq> Return c"
  by simp

lemma try_call_not_Return: "fst (try_call f s) \<noteq> Return c"
  by (simp add: try_call_def case_prod_beta split: option.splits)

lemma check_ceiling_Return:
  assumes "fst (check_ceiling E options s) = Return c"
  shows "c = 0"
proof -
  let ?s1 = "s\<lparr>queries_generated := queries_generated s + 1\<rparr>"
  let ?r = "seq (if global_cerr_logger ?s1 then try_call (report E) (emit Report ?s1)
      else (Next, ?s1)) (\<lambda>s2. (Return 0, s2))"
  have "fst ?r = Return c \<Longrightarrow> c = 0"
    by (auto dest!: seq_Return simp: try_call_not_Return split: if_splits)
  with assms show ?thesis
    by (simp add: check_ceiling_def Let_def split: if_splits sum.splits)
qed

lemma execute_not_Return: "fst (execute E gen s) \<noteq> Return c"
  by (simp add: execute_def case_prod_beta split: option.splits)

lemma iteration_Return_0:
  assumes "fst (iteration E options s) = Return c"
  shows "c = 0"
proof -
  from assms have "fst (check_ceiling E options s) = Return c
    \<or> fst (case generate E (snd (check_ceiling E options s)) of
          (Inl e, s2) \<Rightarrow> (Throw e, s2) | (Inr gen, s2) \<Rightarrow> execute E gen s2) = Return c"
    unfolding iteration_def by (auto dest: seq_Return)
  then show ?thesis
  proof
    assume "fst (check_ceiling E options s) = Return c"
    then show ?thesis by (rule check_ceiling_Return)
  next
    assume "fst (case generate E (snd (check_ceiling E options s)) of
          (Inl e, s2) \<Rightarrow> (Throw e, s2) | (Inr gen, s2) \<Rightarrow> execute E gen s2) = Return c"
    then show ?thesis
      by (simp add: case_prod_beta execute_not_Return split: sum.splits)
  qed
qed

lemma run_loop_Return_0: "fst (run_loop k E options s) = Return c \<Longrightarrow> c = 0"
proof (induction k arbitrary: s)
  case 0
  then show ?case by simp
next
  case (Suc k)
  obtain r s' where it: "iteration E options s = (r, s')"
    by (cases "iteration E options s")
  show ?case
  proof (cases r)
    case Next
    with it Suc.prems have "fst (run_loop k E options s') = Return c" by simp
    then show ?thesis by (rule Suc.IH)
  next
    case (Return c')
    with it Suc.prems have "c' = c" by simp
    with it Return iteration_Return_0 [of E options s c] show ?thesis by simp
  next
    case (Throw e)
    with it Suc.prems
    have "fst (run_loop k E options (emit (Sleep 1000) s')) = Return c"
      by (simp split: if_splits)
    then show ?thesis by (rule Suc.IH)
  qed (use it Suc.prems in simp_all)
qed

lemma dry_iteration_Return_0: "fst (dry_iteration E options s) = Return c \<Longrightarrow> c = 0"
  by (simp add: dry_iteration_def Let_def case_prod_beta
      split: if_splits sum.splits option.splits)

lemma dry_run_Return_0: "fst (dry_run k E options s) = Return c \<Longrightarrow> c = 0"
proof (induction k arbitrary: s)
  case 0
  then show ?case by simp
next
  case (Suc k)
  obtain r s' where it: "dry_iteration E options s = (r, s')"
    by (cases "dry_iteration E options s")
  show ?case
  proof (cases r)
    case Next
    with it Suc.prems have "fst (dry_run k E options s') = Return c" by simp
    then show ?thesis by (rule Suc.IH)
  next
    case (Return c')
    with it Suc.prems have "c' = c" by simp
    with it Return dry_iteration_Return_0 [of E options s c] show ?thesis by simp
  qed (use it Suc.prems in simp_all)
qed

lemma load_schema_Return:
  "fst (load_schema E options s) = Return c
    \<Longrightarrow> c = 1 \<and> count options ''sqlite'' \<and> \<not> have_libsqlite3 E"
  by (simp add: load_schema_def try_call_not_Return split: if_splits)

lemma make_dut_Return:
  "fst (make_dut E options s) = Return c
    \<Longrightarrow> c = 1 \<and> count options ''sqlite'' \<and> \<not> have_libsqlite3 E"
  by (simp add: make_dut_def try_call_not_Return split: if_splits)

lemma add_logger_not_Return: "fst (add_logger E l args s) \<noteq> Return c"
  unfolding add_logger_def
  by (intro seq_not_Return try_call_not_Return Next_not_Return)

lemma make_loggers_not_Return: "fst (make_loggers E options s) \<noteq> Return c"
  unfolding make_loggers_def
  by (intro seq_not_Return if_not_Return add_logger_not_Return try_call_not_Return
      Next_not_Return)

lemma seed_rng_not_Return: "fst (seed_rng E options s) \<noteq> Return c"
  by (simp add: seed_rng_def split: sum.splits)

lemma startup_Return:
  assumes "fst (startup E options s) = Return c"
  shows "c = 1 \<and> count options ''sqlite'' \<and> \<not> have_libsqlite3 E"
proof -
  let ?rest = "\<lambda>s1. seq (try_call (fill_scope E) (emit Fill_scope (s1\<lparr>queries_generated := 0\<rparr>)))
    (\<lambda>s2. seq (make_loggers E options s2) (seed_rng E options))"
  have "fst (?rest s1) \<noteq> Return c" for s1
    by (intro seq_not_Return try_call_not_Return make_loggers_not_Return seed_rng_not_Return)
  with assms have "fst (load_schema E options s) = Return c"
    unfolding startup_unfold by (blast dest: seq_Return)
  then show ?thesis by (rule load_schema_Return)
qed

lemma main_body_Return:
  assumes "fst (main_body fuel E options s) = Return c"
  shows "c = 0 \<or> c = 1 \<and> count options ''sqlite'' \<and> \<not> have_libsqlite3 E"
proof (cases "fst (startup E options s) = Next")
  case False
  with assms have "fst (startup E options s) = Return c"
    unfolding main_body_def by (blast dest: seq_Return)
  then show ?thesis using startup_Return by blast
next
  case True
  let ?s4 = "snd (startup E options s)"
  show ?thesis
  proof (cases "count options ''dry-run''")
    case dry: True
    with True assms have "fst (dry_run fuel E options ?s4) = Return c"
      by (simp add: main_body_dry)
    then have "c = 0" by (rule dry_run_Return_0)
    then show ?thesis ..
  next
    case nodry: False
    show ?thesis
    proof (cases "fst (make_dut E options ?s4) = Next")
      case dut: True
      from assms main_body_loop [OF True nodry dut, of fuel]
      have "fst (run_loop fuel E options (emit (Open_file Allqueries) (emit (Open_file Qrylog)
          (snd (make_dut E options ?s4))))) = Return c"
        by simp
      then have "c = 0" by (rule run_loop_Return_0)
      then show ?thesis ..
    next
      case nodut: False
      from assms True nodry
      have "fst (seq (make_dut E options ?s4) (\<lambda>s5. run_loop fuel E options
          (emit (Open_file Allqueries) (emit (Open_file Qrylog) s5)))) = Return c"
        by (simp add: main_body_def seq_cases)
      with nodut have "fst (make_dut E options ?s4) = Return c"
        by (blast dest: seq_Return)
      then show ?thesis using make_dut_Return by blast
    qed
  qed
qed

lemma catch_exception_Return:
  assumes "fst (catch_exception r) = Return c"
  shows "fst r = Return c \<or> c = 1 \<and> (\<exists>e. fst r = Throw e \<and> is_std_exception e)"
  using assms
  by (cases r) (auto simp: catch_exception_def split: flow.splits if_splits)

lemma sleeps_fixed:
  "\<exists>j. filter is_Sleep (concat (map (pass_events E ls) ps)) = replicate j (Sleep 1000)"
proof (induction ps)
  case Nil
  have "filter is_Sleep (concat (map (pass_events E ls) [])) = replicate 0 (Sleep 1000)"
    by simp
  then show ?case ..
next
  case (Cons p ps)
  then obtain j where j: "filter is_Sleep (concat (map (pass_events E ls) ps))
      = replicate j (Sleep 1000)" ..
  obtain gen r d where p: "p = (gen, r, d)" by (cases p)
  have "filter is_Sleep (pass_events E ls p) = [] \<or> filter is_Sleep (pass_events E ls p) = [Sleep 1000]"
    unfolding p by (cases r) simp_all
  then show ?case
  proof
    assume "filter is_Sleep (pass_events E ls p) = []"
    with j have "filter is_Sleep (concat (map (pass_events E ls) (p # ps)))
        = replicate j (Sleep 1000)" by simp
    then show ?thesis ..
  next
    assume "filter is_Sleep (pass_events E ls p) = [Sleep 1000]"
    with j have "filter is_Sleep (concat (map (pass_events E ls) (p # ps)))
        = replicate (Suc j) (Sleep 1000)" by simp
    then show ?thesis ..
  qed
qed

lemma loop_ends_at_ceiling:
  assumes "factory_returns E" and "test_fails_only E"
    and "observers_behave E (loggers s)"
    and "count options ''max-queries'' \<longrightarrow>
           stol (opt options ''max-queries'') = Inr n \<and> queries_generated s \<le> n \<and> n < LONG_MAX
           \<and> (global_cerr_logger s \<longrightarrow> report_returns E)"
  shows "fst (run_loop k E options s)
      = (if count options ''max-queries'' \<and> nat (n - queries_generated s) < k
         then Return 0 else Running)
    \<and> length (filter is_Test (trace (snd (run_loop k E options s))))
        = length (filter is_Test (trace s))
          + (if count options ''max-queries'' \<and> nat (n - queries_generated s) < k
             then nat (n - queries_generated s) else k)
    \<and> (\<exists>j. filter is_Sleep (trace (snd (run_loop k E options s)))
          = filter is_Sleep (trace s) @ replicate j (Sleep 1000))"
proof -
  from run_loop_visible [OF assms, of k]
  obtain passes
    where tr: "\<And>P. (\<forall>ev. P ev \<longrightarrow> visible ev) \<Longrightarrow>
        filter P (trace (snd (run_loop k E options s)))
          = filter P (trace s) @ filter P (concat (map (pass_events E (loggers s)) passes))"
      and r: "if count options ''max-queries'' \<and> nat (n - queries_generated s) < k
       then fst (run_loop k E options s) = Return 0
         \<and> length passes = nat (n - queries_generated s)
         \<and> queries_generated (snd (run_loop k E options s)) = n + 1
       else fst (run_loop k E options s) = Running \<and> length passes = k"
    by blast
  from r have 1: "fst (run_loop k E options s)
      = (if count options ''max-queries'' \<and> nat (n - queries_generated s) < k
         then Return 0 else Running)"
    and len: "length passes
      = (if count options ''max-queries'' \<and> nat (n - queries_generated s) < k
         then nat (n - queries_generated s) else k)"
    by (simp_all split: if_splits)
  have "length (filter is_Test (concat (map (pass_events E (loggers s)) passes)))
      = 1 * length passes"
    by (rule count_passes) auto
  with tr [of is_Test] len
  have 2: "length (filter is_Test (trace (snd (run_loop k E options s))))
      = length (filter is_Test (trace s))
        + (if count options ''max-queries'' \<and> nat (n - queries_generated s) < k
           then nat (n - queries_generated s) else k)"
    by simp
  from tr [of is_Sleep] sleeps_fixed [of E "loggers s" passes]
  have 3: "\<exists>j. filter is_Sleep (trace (snd (run_loop k E options s)))
      = filter is_Sleep (trace s) @ replicate j (Sleep 1000)"
    by auto
  from 1 2 3 show ?thesis by blast
qed

lemma failure_goes_on:
  assumes "check_ceiling E options s0 = (Next, s1)" and "generate E s1 = (Inr gen, t)"
    and "fst (test E (out E gen) (snd (clock E (world t)))) = Some e" and "is_failure e"
    and "error_guarded E (loggers t)"
  shows "run_loop (Suc k) E options s0
    = run_loop k E options
        (if is_broken e then emit (Sleep 1000) (snd (execute E gen t)) else snd (execute E gen t))"
proof -
  have it: "iteration E options s0 = execute E gen t"
    using assms(1,2) by (rule iteration_execute)
  have P: "\<forall>l m. \<not> is_Error (Log_failed l m :: 'b event)" by simp
  from execute_failure [where P = is_Error, OF assms(3,4,5) P, of 0]
  have 1: "fst (execute E gen t) = (if is_broken e then Throw e else Next)" by simp
  show ?thesis
  proof (cases "is_broken e")
    case True
    with 1 it run_loop_Broken [of E options s0 e k] show ?thesis by simp
  next
    case False
    with 1 it run_loop_Next [of E options s0 k] show ?thesis by simp
  qed
qed

lemma main_nonzero:
  assumes "fst (main fuel E argv w) = Return c" and "c \<noteq> 0"
  shows "c = 1 \<and> (\<exists>opts s0.
      parse_options argv Map.empty
        (emit (Cerr (package_name E @ '' '' @ gitrev E @ endl)) (init_state w)) = (opts, s0)
      \<and> (count opts ''sqlite'' \<and> \<not> have_libsqlite3 E
          \<or> (\<exists>e. is_std_exception e \<and> fst (main_body fuel E opts s0) = Throw e)))"
proof -
  let ?p = "parse_options argv Map.empty
      (emit (Cerr (package_name E @ '' '' @ gitrev E @ endl)) (init_state w))
      :: options \<times> ('a, 'b) state"
  obtain opts s0 where p: "?p = (opts, s0)"
    by (cases ?p)
  from assms p have nh: "\<not> count opts ''help''" and nv: "\<not> count opts ''version''"
    by (auto simp: main_def split: if_splits)
  from main_options [OF p nh nv] assms
  have "fst (catch_exception (main_body fuel E opts s0)) = Return c" by simp
  from catch_exception_Return [OF this]
  have "c = 1 \<and> (count opts ''sqlite'' \<and> \<not> have_libsqlite3 E
      \<or> (\<exists>e. is_std_exception e \<and> fst (main_body fuel E opts s0) = Throw e))"
    using main_body_Return [of fuel E opts s0 c] assms by auto
  with p show ?thesis by blast
qed

lemma handler_Return: "fst (cerr_log_handler E s) = Return c \<Longrightarrow> c = 1"
  by (simp add: cerr_log_handler_def case_prod_beta split: if_splits option.splits)

lemma handler_exits:
  assumes "global_cerr_logger s \<longrightarrow> fst (report E (world s)) = None"
  shows "fst (cerr_log_handler E s) = Return 1"
    and "trace (snd (cerr_log_handler E s))
      = trace s @ (if global_cerr_logger s then [Report] else [])"
  using assms
  by (simp_all add: cerr_log_handler_def case_prod_beta split: option.splits)

lemma interrupted_Running:
  "fst (main fuel E argv w) = Running
    \<Longrightarrow> interrupted fuel E argv w
      = (if Signal_SIGINT \<in> set (trace (snd (main fuel E argv w)))
         then cerr_log_handler E (snd (main fuel E argv w))
         else (Killed, snd (main fuel E argv w)))"
  by (cases "main fuel E argv w") (simp add: interrupted_def)

lemma interrupted_ended:
  "fst (main fuel E argv w) \<noteq> Running \<Longrightarrow> interrupted fuel E argv w = main fuel E argv w"
  by (cases "main fuel E argv w") (simp add: interrupted_def split: flow.splits)

text \<open>\<^verbatim>\<open>SIGINT\<close> after two passes of a run with \<^verbatim>\<open>--verbose\<close>.\<close>

lemma sigint_verbose:
  "fst (interrupted 2 demo_env [''--verbose''] (demo_world [])) = Return 1
   \<and> filter harness_event (trace (snd (interrupted 2 demo_env [''--verbose''] (demo_world []))))
      = [Dut_new Postgres [], Test ''select 1111111'', Test ''select 11111111'']
   \<and> filter is_Report (trace (snd (interrupted 2 demo_env [''--verbose''] (demo_world []))))
      = [Report]"
proof -
  let ?o = "[''verbose'' \<mapsto> []]"
  have p: "parse_options [''--verbose''] Map.empty s = (?o, s)"
    for s :: "(demo_world, nat) state"
    by (simp add: regex_match_opt_def option_names_def)
  let ?s0 = "emit (Cerr (package_name demo_env @ '' '' @ gitrev demo_env @ endl))
    (init_state (demo_world [])) :: (demo_world, nat) state"
  let ?r = "catch_exception (run_loop 2 demo_env ?o
      (emit (Open_file Allqueries) (emit (Open_file Qrylog)
        (snd (make_dut demo_env ?o (snd (startup demo_env ?o ?s0)))))))"
  have s: "fst (startup demo_env ?o ?s0) = Next" by code_simp
  have d: "fst (make_dut demo_env ?o (snd (startup demo_env ?o ?s0))) = Next" by code_simp
  have "main 2 demo_env [''--verbose''] (demo_world []) = catch_exception (main_body 2 demo_env ?o ?s0)"
    by (rule main_options [OF p]) simp_all
  with main_body_loop [OF s _ d, of 2]
  have m: "main 2 demo_env [''--verbose''] (demo_world []) = ?r" by simp
  have r: "fst ?r = Running" by code_simp
  have i: "Signal_SIGINT \<in> set (trace (snd ?r))" by code_simp
  have h: "fst (cerr_log_handler demo_env (snd ?r)) = Return 1
      \<and> filter harness_event (trace (snd (cerr_log_handler demo_env (snd ?r))))
        = [Dut_new Postgres [], Test ''select 1111111'', Test ''select 11111111'']
      \<and> filter is_Report (trace (snd (cerr_log_handler demo_env (snd ?r)))) = [Report]"
    by code_simp
  from r m have "fst (main 2 demo_env [''--verbose''] (demo_world [])) = Running" by simp
  from interrupted_Running [OF this] i m
  have "interrupted 2 demo_env [''--verbose''] (demo_world []) = cerr_log_handler demo_env (snd ?r)"
    by simp
  with h show ?thesis by simp
qed

text \<open>
  C4, as the driver has it. First: when the statement factory returns, the observers
  behave and the value of \<^verbatim>\<open>max-queries\<close> (if given) can be read, a device under test that
  throws nothing but \<^verbatim>\<open>dut::failure\<close>, broken sessions included, never ends the run loop:
  the loop returns 0 when the ceiling is reached and is running otherwise, it has made one
  test in each of its passes, and all it has slept are periods of 1000 milliseconds.
  Second: a pass whose test throws a \<^verbatim>\<open>dut::failure\<close> is followed by the next pass, after a
  sleep of 1000 milliseconds when the session is broken. Third: \<^verbatim>\<open>main\<close> returns a status
  other than 0 only as 1, and only when SQLite was asked for in a build without it or when
  an exception derived from \<^verbatim>\<open>std::exception\<close> left the body of the outer \<^verbatim>\<open>try\<close>. Fourth: a
  process that receives \<^verbatim>\<open>SIGINT\<close> ends with a status other than 0 only as 1, and only for
  these two reasons or because its handler for the signal was installed and ran. Fifth:
  the handler ends the process with status 1 in whatever state the signal finds it, after
  a last report when the global pointer is set.
\<close>

theorem exit_status:
  "(factory_returns E \<and> test_fails_only E \<and> observers_behave E (loggers s)
      \<and> (count options ''max-queries'' \<longrightarrow>
            stol (opt options ''max-queries'') = Inr n \<and> queries_generated s \<le> n
            \<and> n < LONG_MAX \<and> (global_cerr_logger s \<longrightarrow> report_returns E))
      \<longrightarrow> fst (run_loop k E options s)
            = (if count options ''max-queries'' \<and> nat (n - queries_generated s) < k
               then Return 0 else Running)
        \<and> length (filter is_Test (trace (snd (run_loop k E options s))))
            = length (filter is_Test (trace s))
              + (if count options ''max-queries'' \<and> nat (n - queries_generated s) < k
                 then nat (n - queries_generated s) else k)
        \<and> (\<exists>j. filter is_Sleep (trace (snd (run_loop k E options s)))
              = filter is_Sleep (trace s) @ replicate j (Sleep 1000)))
   \<and> (check_ceiling E options s0 = (Next, s1) \<and> generate E s1 = (Inr gen, t)
        \<and> fst (test E (out E gen) (snd (clock E (world t)))) = Some e \<and> is_failure e
        \<and> error_guarded E (loggers t)
      \<longrightarrow> run_loop (Suc k) E options s0
            = run_loop k E options
                (if is_broken e then emit (Sleep 1000) (snd (execute E gen t))
                 else snd (execute E gen t)))
   \<and> (fst (main fuel E argv w) = Return c \<and> c \<noteq> 0 \<longrightarrow>
        c = 1 \<and> (\<exists>opts s0.
          parse_options argv Map.empty
            (emit (Cerr (package_name E @ '' '' @ gitrev E @ endl)) (init_state w)) = (opts, s0)
          \<and> (count opts ''sqlite'' \<and> \<not> have_libsqlite3 E
              \<or> (\<exists>e. is_std_exception e \<and> fst (main_body fuel E opts s0) = Throw e))))
   \<and> (fst (interrupted fuel E argv w) = Return c \<and> c \<noteq> 0 \<longrightarrow>
        c = 1 \<and> (\<exists>opts s0.
          parse_options argv Map.empty
            (emit (Cerr (package_name E @ '' '' @ gitrev E @ endl)) (init_state w)) = (opts, s0)
          \<and> (count opts ''sqlite'' \<and> \<not> have_libsqlite3 E
              \<or> (\<exists>e. is_std_exception e \<and> fst (main_body fuel E opts s0) = Throw e)
              \<or> fst (main fuel E argv w) = Running
                \<and> Signal_SIGINT \<in> set (trace (snd (main fuel E argv w)))
                \<and> interrupted fuel E argv w = cerr_log_handler E (snd (main fuel E argv w)))))
   \<and> ((global_cerr_logger s' \<longrightarrow> fst (report E (world s')) = None) \<longrightarrow>
        fst (cerr_log_handler E s') = Return 1
        \<and> trace (snd (cerr_log_handler E s'))
            = trace s' @ (if global_cerr_logger s' then [Report] else []))"
proof (intro conjI)
  show "factory_returns E \<and> test_fails_only E \<and> observers_behave E (loggers s)
      \<and> (count options ''max-queries'' \<longrightarrow>
            stol (opt options ''max-queries'') = Inr n \<and> queries_generated s \<le> n
            \<and> n < LONG_MAX \<and> (global_cerr_logger s \<longrightarrow> report_returns E))
      \<longrightarrow> fst (run_loop k E options s)
            = (if count options ''max-queries'' \<and> nat (n - queries_generated s) < k
               then Return 0 else Running)
        \<and> length (filter is_Test (trace (snd (run_loop k E options s))))
            = length (filter is_Test (trace s))
              + (if count options ''max-queries'' \<and> nat (n - queries_generated s) < k
                 then nat (n - queries_generated s) else k)
        \<and> (\<exists>j. filter is_Sleep (trace (snd (run_loop k E options s)))
              = filter is_Sleep (trace s) @ replicate j (Sleep 1000))"
    using loop_ends_at_ceiling [of E s options n k] by blast
next
  show "check_ceiling E options s0 = (Next, s1) \<and> generate E s1 = (Inr gen, t)
        \<and> fst (test E (out E gen) (snd (clock E (world t)))) = Some e \<and> is_failure e
        \<and> error_guarded E (loggers t)
      \<longrightarrow> run_loop (Suc k) E options s0
            = run_loop k E options
                (if is_broken e then emit (Sleep 1000) (snd (execute E gen t))
                 else snd (execute E gen t))"
    using failure_goes_on [of E options s0 s1 gen t e k] by blast
next
  show "fst (main fuel E argv w) = Return c \<and> c \<noteq> 0 \<longrightarrow>
        c = 1 \<and> (\<exists>opts s0.
          parse_options argv Map.empty
            (emit (Cerr (package_name E @ '' '' @ gitrev E @ endl)) (init_state w)) = (opts, s0)
          \<and> (count opts ''sqlite'' \<and> \<not> have_libsqlite3 E
              \<or> (\<exists>e. is_std_exception e \<and> fst (main_body fuel E opts s0) = Throw e)))"
    using main_nonzero [of fuel E argv w c] by blast
next
  show "fst (interrupted fuel E argv w) = Return c \<and> c \<noteq> 0 \<longrightarrow>
        c = 1 \<and> (\<exists>opts s0.
          parse_options argv Map.empty
            (emit (Cerr (package_name E @ '' '' @ gitrev E @ endl)) (init_state w)) = (opts, s0)
          \<and> (count opts ''sqlite'' \<and> \<not> have_libsqlite3 E
              \<or> (\<exists>e. is_std_exception e \<and> fst (main_body fuel E opts s0) = Throw e)
              \<or> fst (main fuel E argv w) = Running
                \<and> Signal_SIGINT \<in> set (trace (snd (main fuel E argv w)))
                \<and> interrupted fuel E argv w = cerr_log_handler E (snd (main fuel E argv w))))"
  proof
    assume a: "fst (interrupted fuel E argv w) = Return c \<and> c \<noteq> 0"
    let ?p = "parse_options argv Map.empty
        (emit (Cerr (package_name E @ '' '' @ gitrev E @ endl)) (init_state w))
        :: options \<times> ('a, 'b) state"
    show "c = 1 \<and> (\<exists>opts s0. ?p = (opts, s0)
          \<and> (count opts ''sqlite'' \<and> \<not> have_libsqlite3 E
              \<or> (\<exists>e. is_std_exception e \<and> fst (main_body fuel E opts s0) = Throw e)
              \<or> fst (main fuel E argv w) = Running
                \<and> Signal_SIGINT \<in> set (trace (snd (main fuel E argv w)))
                \<and> interrupted fuel E argv w = cerr_log_handler E (snd (main fuel E argv w))))"
    proof (cases "fst (main fuel E argv w) = Running")
      case True
      note i = interrupted_Running [OF True]
      from a i have inst: "Signal_SIGINT \<in> set (trace (snd (main fuel E argv w)))"
        by (auto split: if_splits)
      with i have h: "interrupted fuel E argv w = cerr_log_handler E (snd (main fuel E argv w))"
        by simp
      with a have "c = 1" using handler_Return by metis
      moreover obtain opts s0 where "?p = (opts, s0)" by (cases ?p)
      ultimately show ?thesis using True inst h by blast
    next
      case False
      from interrupted_ended [OF False] a
      have "fst (main fuel E argv w) = Return c" and "c \<noteq> 0" by simp_all
      from main_nonzero [OF this] show ?thesis by blast
    qed
  qed
next
  show "(global_cerr_logger s' \<longrightarrow> fst (report E (world s')) = None) \<longrightarrow>
        fst (cerr_log_handler E s') = Return 1
        \<and> trace (snd (cerr_log_handler E s'))
            = trace s' @ (if global_cerr_logger s' then [Report] else [])"
    using handler_exits [of s' E] by blast
qed

text \<open>
  A run of the theorem: a device under test that rejects every other statement and loses
  its session on the rest; a pass with a broken session; \<^verbatim>\<open>--seed=abc\<close>; and \<^verbatim>\<open>SIGINT\<close>
  after two passes of a run with \<^verbatim>\<open>--verbose\<close>.
\<close>

theorem exit_status_witness:
  "fst (run_loop 10 (demo_env\<lparr>test := \<lambda>q w.
          (if even (made w) then Some (Failure ''syntax error'')
           else Some (Broken ''server closed''), w)\<rparr>) Map.empty (demo_state [])) = Running
   \<and> length (filter is_Test (trace (snd (run_loop 10 (demo_env\<lparr>test := \<lambda>q w.
          (if even (made w) then Some (Failure ''syntax error'')
           else Some (Broken ''server closed''), w)\<rparr>) Map.empty (demo_state []))))) = 10
   \<and> run_loop (Suc 3) demo_env Map.empty (demo_state [Some (Broken ''server closed'')])
      = run_loop 3 demo_env Map.empty (emit (Sleep 1000)
          (snd (execute demo_env 0
            (snd (generate demo_env (demo_state [Some (Broken ''server closed'')]))))))
   \<and> (\<exists>opts s0.
        parse_options [''--seed=abc''] Map.empty
          (emit (Cerr (package_name demo_env @ '' '' @ gitrev demo_env @ endl))
             (init_state (demo_world []))) = (opts, s0)
        \<and> (count opts ''sqlite'' \<and> \<not> have_libsqlite3 demo_env
            \<or> (\<exists>e. is_std_exception e \<and> fst (main_body 3 demo_env opts s0) = Throw e)))
   \<and> (\<exists>opts s0.
        parse_options [''--verbose''] Map.empty
          (emit (Cerr (package_name demo_env @ '' '' @ gitrev demo_env @ endl))
             (init_state (demo_world []))) = (opts, s0)
        \<and> (count opts ''sqlite'' \<and> \<not> have_libsqlite3 demo_env
            \<or> (\<exists>e. is_std_exception e \<and> fst (main_body 2 demo_env opts s0) = Throw e)
            \<or> fst (main 2 demo_env [''--verbose''] (demo_world [])) = Running
              \<and> Signal_SIGINT \<in> set (trace (snd (main 2 demo_env [''--verbose''] (demo_world []))))
              \<and> interrupted 2 demo_env [''--verbose''] (demo_world [])
                  = cerr_log_handler demo_env
                      (snd (main 2 demo_env [''--verbose''] (demo_world [])))))
   \<and> fst (cerr_log_handler demo_env (demo_state [])) = Return 1"
proof -
  let ?E = "demo_env\<lparr>test := \<lambda>q w.
     (if even (made w) then Some (Failure ''syntax error'') else Some (Broken ''server closed''),
      w)\<rparr>"
  let ?s = "demo_state [] :: (demo_world, nat) state"
  let ?sc = "[Some (Broken ''server closed'')]"
  have h1: "factory_returns ?E" by (simp add: factory_returns_def demo_env_def)
  have h2: "test_fails_only ?E" by (rule flaky_fails_only)
  have h3: "observers_behave ?E (loggers ?s)"
    by (simp add: observers_behave_def generated_returns_def executed_returns_def
        error_guarded_def demo_env_def)
  have h4: "count Map.empty ''max-queries'' \<longrightarrow>
      stol (opt Map.empty ''max-queries'') = Inr 0 \<and> queries_generated ?s \<le> 0
      \<and> 0 < LONG_MAX \<and> (global_cerr_logger ?s \<longrightarrow> report_returns ?E)"
    by simp
  have h5: "fst (main 3 demo_env [''--seed=abc''] (demo_world [])) = Return 1 \<and> (1::int) \<noteq> 0"
    by code_simp
  have b1: "check_ceiling demo_env Map.empty (demo_state ?sc) = (Next, demo_state ?sc)"
    by (simp add: check_ceiling_absent)
  have b3: "fst (test demo_env (out demo_env 0)
      (snd (clock demo_env (world (snd (generate demo_env (demo_state ?sc)))))))
      = Some (Broken ''server closed'')"
    by (simp add: demo_test)
  have b4: "is_failure (Broken ''server closed'')" by simp
  have b5: "error_guarded demo_env (loggers (snd (generate demo_env (demo_state ?sc))))"
    by (rule demo_observers)
  have h6: "fst (interrupted 2 demo_env [''--verbose''] (demo_world [])) = Return 1
      \<and> (1::int) \<noteq> 0"
    using sigint_verbose by simp
  have h7: "global_cerr_logger ?s \<longrightarrow> fst (report demo_env (world ?s)) = None"
    by (simp add: demo_state_def init_state_def)
  from exit_status [where E = ?E and s = ?s and options = Map.empty and n = 0 and k = 10]
    h1 h2 h3 h4
  have a: "fst (run_loop 10 ?E Map.empty ?s) = Running
      \<and> length (filter is_Test (trace (snd (run_loop 10 ?E Map.empty ?s)))) = 10"
    by (simp add: demo_state_def init_state_def)
  from exit_status [where E = demo_env and options = Map.empty and ?s0.0 = "demo_state ?sc"
      and ?s1.0 = "demo_state ?sc" and gen = 0 and t = "snd (generate demo_env (demo_state ?sc))"
      and e = "Broken ''server closed''" and k = 3]
    b1 demo_generate_pair [of ?sc] b3 b4 b5
  have b: "run_loop (Suc 3) demo_env Map.empty (demo_state ?sc)
      = run_loop 3 demo_env Map.empty (emit (Sleep 1000)
          (snd (execute demo_env 0 (snd (generate demo_env (demo_state ?sc))))))"
    by simp
  from exit_status [where E = demo_env and fuel = 3 and argv = "[''--seed=abc'']"
      and w = "demo_world []" and c = 1] h5
  have c: "\<exists>opts s0.
        parse_options [''--seed=abc''] Map.empty
          (emit (Cerr (package_name demo_env @ '' '' @ gitrev demo_env @ endl))
             (init_state (demo_world []))) = (opts, s0)
        \<and> (count opts ''sqlite'' \<and> \<not> have_libsqlite3 demo_env
            \<or> (\<exists>e. is_std_exception e \<and> fst (main_body 3 demo_env opts s0) = Throw e))"
    by blast
  from exit_status [where E = demo_env and fuel = 2 and argv = "[''--verbose'']"
      and w = "demo_world []" and c = 1] h6
  have d: "\<exists>opts s0.
        parse_options [''--verbose''] Map.empty
          (emit (Cerr (package_name demo_env @ '' '' @ gitrev demo_env @ endl))
             (init_state (demo_world []))) = (opts, s0)
        \<and> (count opts ''sqlite'' \<and> \<not> have_libsqlite3 demo_env
            \<or> (\<exists>e. is_std_exception e \<and> fst (main_body 2 demo_env opts s0) = Throw e)
            \<or> fst (main 2 demo_env [''--verbose''] (demo_world [])) = Running
              \<and> Signal_SIGINT \<in> set (trace (snd (main 2 demo_env [''--verbose''] (demo_world []))))
              \<and> interrupted 2 demo_env [''--verbose''] (demo_world [])
                  = cerr_log_handler demo_env
                      (snd (main 2 demo_env [''--verbose''] (demo_world []))))"
    by blast
  from exit_status [where E = demo_env and s' = ?s] h7
  have e: "fst (cerr_log_handler demo_env ?s) = Return 1"
    by blast
  from a b c d e show ?thesis by blast
qed

text \<open>
  C4 as the specification has it fails. With \<^verbatim>\<open>--seed=abc\<close> the schema is loaded and the
  scope filled, then \<^verbatim>\<open>stoi\<close> rejects the value and \<^verbatim>\<open>main\<close> returns 1. With \<^verbatim>\<open>--sqlite=db\<close> in
  a build without SQLite support \<^verbatim>\<open>main\<close> returns 1 without any exception and before it
  loads a schema. With \<^verbatim>\<open>--verbose\<close> a process that receives \<^verbatim>\<open>SIGINT\<close> after two passes of
  the run loop prints a last report and ends with status 1. And a statement that fails
  does end the process, with status 1, when the \<^verbatim>\<open>error\<close> hook of a logger then throws an
  exception that is not a \<^verbatim>\<open>runtime_error\<close>.
\<close>

theorem exit_status_counterexample:
  "fst (main 3 demo_env [''--seed=abc''] (demo_world [])) = Return 1
   \<and> trace (snd (main 3 demo_env [''--seed=abc''] (demo_world [])))
      = [Cerr (''sqlsmith unknown'' @ endl), Cout (''=====:  :======'' @ endl),
         Schema_new Postgres [], Fill_scope, Logger_new Impedance_feedback [],
         Cerr (''stoi'' @ endl)]
   \<and> fst (main 3 demo_env [''--sqlite=db''] (demo_world [])) = Return 1
   \<and> trace (snd (main 3 demo_env [''--sqlite=db''] (demo_world [])))
      = [Cerr (''sqlsmith unknown'' @ endl),
         Cerr (''Sorry, sqlsmith was compiled without SQLite support.'' @ endl)]
   \<and> fst (interrupted 2 demo_env [''--verbose''] (demo_world [])) = Return 1
   \<and> filter harness_event (trace (snd (interrupted 2 demo_env [''--verbose''] (demo_world []))))
      = [Dut_new Postgres [], Test ''select 1111111'', Test ''select 11111111'']
   \<and> filter is_Report (trace (snd (interrupted 2 demo_env [''--verbose''] (demo_world []))))
      = [Report]
   \<and> fst (main 5 error_throws [''--verbose''] (demo_world [Some (Failure ''syntax error'')]))
      = Return 1
   \<and> filter observer_event
        (trace (snd (main 5 error_throws [''--verbose''] (demo_world [Some (Failure ''syntax error'')]))))
      = [Statement 7, Generated Impedance_feedback 7, Generated Cerr_logger 7,
         Test ''select 1111111'', Error Impedance_feedback 7 (Failure ''syntax error'')]"
proof -
  have "fst (main 3 demo_env [''--seed=abc''] (demo_world [])) = Return 1
   \<and> trace (snd (main 3 demo_env [''--seed=abc''] (demo_world [])))
      = [Cerr (''sqlsmith unknown'' @ endl), Cout (''=====:  :======'' @ endl),
         Schema_new Postgres [], Fill_scope, Logger_new Impedance_feedback [],
         Cerr (''stoi'' @ endl)]
   \<and> fst (main 3 demo_env [''--sqlite=db''] (demo_world [])) = Return 1
   \<and> trace (snd (main 3 demo_env [''--sqlite=db''] (demo_world [])))
      = [Cerr (''sqlsmith unknown'' @ endl),
         Cerr (''Sorry, sqlsmith was compiled without SQLite support.'' @ endl)]"
    by code_simp
  with sigint_verbose error_throws_run show ?thesis by blast
qed


subsection \<open>The seed\<close>

text \<open>The process identifier is read nowhere but in \<^verbatim>\<open>seed_rng\<close>.\<close>

lemma notify_generated_getpid [simp]:
  "notify_generated (E\<lparr>getpid := p\<rparr>) ls gen s = notify_generated E ls gen s"
  by (induction ls arbitrary: s) (simp_all add: case_prod_beta split: option.splits)

lemma notify_executed_getpid [simp]:
  "notify_executed (E\<lparr>getpid := p\<rparr>) ls gen s = notify_executed E ls gen s"
  by (induction ls arbitrary: s) (simp_all add: case_prod_beta split: option.splits)

lemma notify_error_getpid [simp]:
  "notify_error (E\<lparr>getpid := p\<rparr>) ls gen e s = notify_error E ls gen e s"
  by (induction ls arbitrary: s) (simp_all add: case_prod_beta split: option.splits)

lemma check_ceiling_getpid [simp]:
  "check_ceiling (E\<lparr>getpid := p\<rparr>) options s = check_ceiling E options s"
  by (simp add: check_ceiling_def Let_def seq_def
      cong: prod.case_cong sum.case_cong option.case_cong flow.case_cong if_cong)

lemma generate_getpid [simp]: "generate (E\<lparr>getpid := p\<rparr>) s = generate E s"
  by (simp add: generate_def Let_def seq_def
      cong: prod.case_cong sum.case_cong option.case_cong flow.case_cong if_cong)

lemma try_block_getpid [simp]: "try_block (E\<lparr>getpid := p\<rparr>) gen s = try_block E gen s"
  by (simp add: try_block_def Let_def seq_def
      cong: prod.case_cong sum.case_cong option.case_cong flow.case_cong if_cong)

lemma execute_getpid [simp]: "execute (E\<lparr>getpid := p\<rparr>) gen s = execute E gen s"
  by (simp add: execute_def Let_def seq_def
      cong: prod.case_cong sum.case_cong option.case_cong flow.case_cong if_cong)

lemma iteration_getpid [simp]: "iteration (E\<lparr>getpid := p\<rparr>) options s = iteration E options s"
  by (simp add: iteration_def Let_def seq_def
      cong: prod.case_cong sum.case_cong option.case_cong flow.case_cong if_cong)

lemma run_loop_getpid [simp]: "run_loop k (E\<lparr>getpid := p\<rparr>) options s = run_loop k E options s"
  by (induction k arbitrary: s)
    (simp_all cong: prod.case_cong flow.case_cong if_cong)

lemma dry_iteration_getpid [simp]:
  "dry_iteration (E\<lparr>getpid := p\<rparr>) options s = dry_iteration E options s"
  by (simp add: dry_iteration_def Let_def seq_def
      cong: prod.case_cong sum.case_cong option.case_cong flow.case_cong if_cong)

lemma dry_run_getpid [simp]: "dry_run k (E\<lparr>getpid := p\<rparr>) options s = dry_run k E options s"
  by (induction k arbitrary: s)
    (simp_all cong: prod.case_cong flow.case_cong if_cong)

lemma startup_getpid:
  "count options ''seed''
    \<Longrightarrow> startup (E\<lparr>getpid := p\<rparr>) options s = startup E options s"
  by (simp add: startup_unfold load_schema_def make_loggers_def add_logger_def seed_rng_def Let_def seq_def
      cong: prod.case_cong sum.case_cong option.case_cong flow.case_cong if_cong)

lemma main_body_getpid:
  "count options ''seed''
    \<Longrightarrow> main_body fuel (E\<lparr>getpid := p\<rparr>) options s = main_body fuel E options s"
  by (simp add: main_body_def startup_getpid make_dut_def Let_def seq_def
      cong: prod.case_cong sum.case_cong option.case_cong flow.case_cong if_cong)

text \<open>What start-up and the loops add to the seedings and statements of the trace.\<close>

lemma only_statements:
  assumes "list_all loop_event evs"
  shows "\<exists>ps. filter (\<lambda>ev. is_Rng_seed ev \<or> is_Statement ev) evs = map Statement ps"
  using assms
proof (induction evs)
  case Nil
  show ?case by simp
next
  case (Cons ev evs)
  then obtain ps
    where ps: "filter (\<lambda>ev. is_Rng_seed ev \<or> is_Statement ev) evs = map Statement ps"
    by auto
  from Cons.prems have l: "loop_event ev" by simp
  show ?case
  proof (cases ev)
    case (Statement p)
    with ps have "filter (\<lambda>ev. is_Rng_seed ev \<or> is_Statement ev) (ev # evs)
        = map Statement (p # ps)"
      by simp
    then show ?thesis ..
  qed (use l ps in auto)
qed

lemma grows_statements:
  assumes "grows loop_event s s'"
  shows "\<exists>ps. filter (\<lambda>ev. is_Rng_seed ev \<or> is_Statement ev) (trace s')
    = filter (\<lambda>ev. is_Rng_seed ev \<or> is_Statement ev) (trace s) @ map Statement ps"
proof -
  from assms obtain evs where "trace s' = trace s @ evs" and "list_all loop_event evs"
    by (auto simp: grows_def)
  with only_statements [of evs] show ?thesis by auto
qed

lemma seq_trace:
  assumes "f (trace (snd r)) = f (trace s)" and "\<And>s'. f (trace (snd (g s'))) = f (trace s')"
  shows "f (trace (snd (seq r g))) = f (trace s)"
  using assms by (cases r) (auto simp: seq_def split: flow.splits)

lemma load_schema_quiet:
  assumes "\<And>ev. startup_event ev \<Longrightarrow> \<not> P ev"
  shows "filter P (trace (snd (load_schema E options s))) = filter P (trace s)"
  by (simp add: load_schema_def assms)

lemma add_logger_quiet:
  assumes "\<And>ev. startup_event ev \<Longrightarrow> \<not> P ev"
  shows "filter P (trace (snd (add_logger E l args s))) = filter P (trace s)"
  unfolding add_logger_def by (rule seq_trace) (simp_all add: assms)

lemma make_loggers_quiet:
  assumes "\<And>ev. startup_event ev \<Longrightarrow> \<not> P ev"
  shows "filter P (trace (snd (make_loggers E options s))) = filter P (trace s)"
proof -
  note a = add_logger_quiet [of P, OF assms]
  have v: "filter P (trace (snd (seq
      (try_call (logger_new E Cerr_logger []) (emit (Logger_new Cerr_logger []) s2))
      (\<lambda>s'. (Next, emit Signal_SIGINT
         (s'\<lparr>loggers := loggers s' @ [Cerr_logger], global_cerr_logger := True\<rparr>))))))
    = filter P (trace s2)" for s2
    by (rule seq_trace) (simp_all add: assms)
  show ?thesis
    unfolding make_loggers_def
    by (intro seq_trace) (simp_all add: a v)
qed

lemma startup_quiet:
  assumes "\<And>ev. startup_event ev \<Longrightarrow> \<not> P ev" and "\<And>k. \<not> P (Rng_seed k)"
  shows "filter P (trace (snd (startup E options s))) = filter P (trace s)"
proof -
  have "filter P (trace (snd (seed_rng E options s3))) = filter P (trace s3)" for s3
    by (simp add: seed_rng_def assms(2) split: sum.splits)
  then show ?thesis
    unfolding startup_unfold
    by (intro seq_trace) (simp_all add: load_schema_quiet make_loggers_quiet assms)
qed

lemma startup_event_not_seed_statement:
  "startup_event ev \<Longrightarrow> \<not> (is_Rng_seed ev \<or> is_Statement ev)"
  by (cases ev) simp_all

lemma make_dut_quiet:
  "filter (\<lambda>ev. is_Rng_seed ev \<or> is_Statement ev) (trace (snd (make_dut E options s)))
    = filter (\<lambda>ev. is_Rng_seed ev \<or> is_Statement ev) (trace s)"
  by (simp add: make_dut_def)

lemma seed_rng_seeds:
  assumes "count options ''seed'' \<longrightarrow> stoi (opt options ''seed'') = Inr k"
    and "\<not> count options ''seed'' \<longrightarrow> k = getpid E"
  shows "seed_rng E options s = (Next, emit (Rng_seed k) (s\<lparr>world := rng_seed E k (world s)\<rparr>))"
  using assms by (simp add: seed_rng_def)

lemma startup_seeded:
  assumes "count options ''seed'' \<longrightarrow> stoi (opt options ''seed'') = Inr k"
    and "\<not> count options ''seed'' \<longrightarrow> k = getpid E"
  shows "filter (\<lambda>ev. is_Rng_seed ev \<or> is_Statement ev) (trace (snd (startup E options s)))
    = filter (\<lambda>ev. is_Rng_seed ev \<or> is_Statement ev) (trace s)
      @ (if fst (startup E options s) = Next then [Rng_seed k] else [])"
proof -
  let ?Q = "\<lambda>ev :: 'b event. is_Rng_seed ev \<or> is_Statement ev"
  let ?r1 = "load_schema E options s"
  let ?r2 = "try_call (fill_scope E) (emit Fill_scope (snd ?r1\<lparr>queries_generated := 0\<rparr>))"
  let ?r3 = "make_loggers E options (snd ?r2)"
  let ?r4 = "seed_rng E options (snd ?r3)"
  have t1: "filter ?Q (trace (snd ?r1)) = filter ?Q (trace s)"
    using startup_event_not_seed_statement by (rule load_schema_quiet)
  have t2: "filter ?Q (trace (snd ?r2)) = filter ?Q (trace s)" using t1 by simp
  have "filter ?Q (trace (snd ?r3)) = filter ?Q (trace (snd ?r2))"
    using startup_event_not_seed_statement by (rule make_loggers_quiet)
  with t2 have t3: "filter ?Q (trace (snd ?r3)) = filter ?Q (trace s)" by simp
  have r4: "?r4 = (Next, emit (Rng_seed k)
      (snd ?r3\<lparr>world := rng_seed E k (world (snd ?r3))\<rparr>))"
    using assms by (rule seed_rng_seeds)
  have t4: "filter ?Q (trace (snd ?r4)) = filter ?Q (trace s) @ [Rng_seed k]"
    using t3 by (simp add: r4)
  have st: "startup E options s
    = (if fst ?r1 \<noteq> Next then ?r1 else if fst ?r2 \<noteq> Next then ?r2
       else if fst ?r3 \<noteq> Next then ?r3 else ?r4)"
    by (simp add: startup_unfold seq_cases split: flow.splits)
  show ?thesis
    using t1 t2 t3 t4 r4 by (simp add: st)
qed

lemma make_dut_getpid [simp]: "make_dut (E\<lparr>getpid := p\<rparr>) options s = make_dut E options s"
  by (simp add: make_dut_def)

text \<open>Start-up in two worlds that differ at most in the state of the generator.\<close>

lemma agree_emit: "agree R s s' \<Longrightarrow> agree R (emit ev s) (emit ev s')"
  by (simp add: agree_def)

lemma agree_try_call:
  assumes "indifferent R f" and "agree R s s'"
  shows "fst (try_call f s') = fst (try_call f s)
    \<and> agree R (snd (try_call f s)) (snd (try_call f s'))"
proof -
  from assms have r: "fst (f (world s)) = fst (f (world s'))"
    and w: "R (snd (f (world s))) (snd (f (world s')))"
    by (simp_all add: indifferent_def agree_def)
  have f: "fst (try_call f t) = (case fst (f (world t)) of None \<Rightarrow> Next | Some e \<Rightarrow> Throw e)"
    and s: "world (snd (try_call f t)) = snd (f (world t))" for t :: "('a, 'b) state"
    by (simp_all add: try_call_def call_def case_prod_beta split: option.splits)
  from assms(2) r w show ?thesis
    by (simp add: agree_def f s)
qed

lemma seq_agree:
  assumes "fst r' = fst r \<and> agree R (snd r) (snd r')"
    and "\<And>s s'. agree R s s' \<Longrightarrow> fst (f' s') = fst (f s) \<and> agree R (snd (f s)) (snd (f' s'))"
  shows "fst (seq r' f') = fst (seq r f) \<and> agree R (snd (seq r f)) (snd (seq r' f'))"
  using assms by (simp add: seq_cases split: flow.splits)

lemma load_schema_agree:
  assumes "\<forall>b c. indifferent R (schema_new E b c)" and "agree R s s'"
  shows "fst (load_schema (E\<lparr>getpid := p\<rparr>) options s') = fst (load_schema E options s)
    \<and> agree R (snd (load_schema E options s)) (snd (load_schema (E\<lparr>getpid := p\<rparr>) options s'))"
proof -
  have "fst (try_call (schema_new E b c) (emit ev2 (emit ev1 s')))
      = fst (try_call (schema_new E b c) (emit ev2 (emit ev1 s)))
    \<and> agree R (snd (try_call (schema_new E b c) (emit ev2 (emit ev1 s))))
        (snd (try_call (schema_new E b c) (emit ev2 (emit ev1 s'))))" for b c ev1 ev2
    by (rule agree_try_call [OF _ agree_emit [OF agree_emit [OF assms(2)]]]) (simp add: assms(1))
  then show ?thesis
    using agree_emit [OF assms(2)] by (simp add: load_schema_def)
qed

lemma add_logger_agree:
  assumes "\<forall>l a. indifferent R (logger_new E l a)" and "agree R s s'"
  shows "fst (add_logger (E\<lparr>getpid := p\<rparr>) l args s') = fst (add_logger E l args s)
    \<and> agree R (snd (add_logger E l args s)) (snd (add_logger (E\<lparr>getpid := p\<rparr>) l args s'))"
  unfolding add_logger_def
proof (rule seq_agree)
  show "fst (try_call (logger_new (E\<lparr>getpid := p\<rparr>) l args) (emit (Logger_new l args) s'))
      = fst (try_call (logger_new E l args) (emit (Logger_new l args) s))
    \<and> agree R (snd (try_call (logger_new E l args) (emit (Logger_new l args) s)))
        (snd (try_call (logger_new (E\<lparr>getpid := p\<rparr>) l args) (emit (Logger_new l args) s')))"
    using agree_try_call [where f = "logger_new E l args", OF _ agree_emit [OF assms(2)]] assms(1)
    by simp
next
  fix t t' :: "('a, 'b) state"
  assume "agree R t t'"
  then show "fst (Next, t'\<lparr>loggers := loggers t' @ [l]\<rparr>) = fst (Next, t\<lparr>loggers := loggers t @ [l]\<rparr>)
    \<and> agree R (snd (Next, t\<lparr>loggers := loggers t @ [l]\<rparr>))
        (snd (Next, t'\<lparr>loggers := loggers t' @ [l]\<rparr>))"
    by (simp add: agree_def)
qed

lemma make_loggers_agree:
  assumes l: "\<forall>l a. indifferent R (logger_new E l a)" and "agree R s s'"
  shows "fst (make_loggers (E\<lparr>getpid := p\<rparr>) options s') = fst (make_loggers E options s)
    \<and> agree R (snd (make_loggers E options s)) (snd (make_loggers (E\<lparr>getpid := p\<rparr>) options s'))"
  unfolding make_loggers_def
proof (intro seq_agree)
  show "fst (add_logger (E\<lparr>getpid := p\<rparr>) Impedance_feedback [] s')
      = fst (add_logger E Impedance_feedback [] s)
    \<and> agree R (snd (add_logger E Impedance_feedback [] s))
        (snd (add_logger (E\<lparr>getpid := p\<rparr>) Impedance_feedback [] s'))"
    using assms by (rule add_logger_agree)
next
  fix t t' :: "('a, 'b) state"
  assume a: "agree R t t'"
  let ?args = "[if count options ''sqlite'' then opt options ''sqlite'' else opt options ''target'',
    opt options ''log-to'']"
  show "fst (if count options ''log-to'' then add_logger (E\<lparr>getpid := p\<rparr>) Pqxx_logger ?args t'
            else (Next, t'))
      = fst (if count options ''log-to'' then add_logger E Pqxx_logger ?args t else (Next, t))
    \<and> agree R (snd (if count options ''log-to'' then add_logger E Pqxx_logger ?args t else (Next, t)))
        (snd (if count options ''log-to'' then add_logger (E\<lparr>getpid := p\<rparr>) Pqxx_logger ?args t'
              else (Next, t')))"
    using add_logger_agree [OF l a, of p Pqxx_logger ?args] a by simp
next
  fix t t' :: "('a, 'b) state"
  assume a: "agree R t t'"
  have "fst (seq (try_call (logger_new (E\<lparr>getpid := p\<rparr>) Cerr_logger [])
                (emit (Logger_new Cerr_logger []) t'))
           (\<lambda>s'. (Next, emit Signal_SIGINT
              (s'\<lparr>loggers := loggers s' @ [Cerr_logger], global_cerr_logger := True\<rparr>))))
      = fst (seq (try_call (logger_new E Cerr_logger []) (emit (Logger_new Cerr_logger []) t))
           (\<lambda>s'. (Next, emit Signal_SIGINT
              (s'\<lparr>loggers := loggers s' @ [Cerr_logger], global_cerr_logger := True\<rparr>))))
    \<and> agree R
        (snd (seq (try_call (logger_new E Cerr_logger []) (emit (Logger_new Cerr_logger []) t))
           (\<lambda>s'. (Next, emit Signal_SIGINT
              (s'\<lparr>loggers := loggers s' @ [Cerr_logger], global_cerr_logger := True\<rparr>)))))
        (snd (seq (try_call (logger_new (E\<lparr>getpid := p\<rparr>) Cerr_logger [])
                (emit (Logger_new Cerr_logger []) t'))
           (\<lambda>s'. (Next, emit Signal_SIGINT
              (s'\<lparr>loggers := loggers s' @ [Cerr_logger], global_cerr_logger := True\<rparr>)))))"
  proof (rule seq_agree)
    show "fst (try_call (logger_new (E\<lparr>getpid := p\<rparr>) Cerr_logger [])
            (emit (Logger_new Cerr_logger []) t'))
        = fst (try_call (logger_new E Cerr_logger []) (emit (Logger_new Cerr_logger []) t))
      \<and> agree R (snd (try_call (logger_new E Cerr_logger []) (emit (Logger_new Cerr_logger []) t)))
          (snd (try_call (logger_new (E\<lparr>getpid := p\<rparr>) Cerr_logger [])
            (emit (Logger_new Cerr_logger []) t')))"
      using agree_try_call [where f = "logger_new E Cerr_logger []", OF _ agree_emit [OF a]] l
      by simp
  next
    fix u u' :: "('a, 'b) state"
    assume "agree R u u'"
    then show "fst (Next, emit Signal_SIGINT
          (u'\<lparr>loggers := loggers u' @ [Cerr_logger], global_cerr_logger := True\<rparr>))
        = fst (Next, emit Signal_SIGINT
          (u\<lparr>loggers := loggers u @ [Cerr_logger], global_cerr_logger := True\<rparr>))
      \<and> agree R (snd (Next, emit Signal_SIGINT
          (u\<lparr>loggers := loggers u @ [Cerr_logger], global_cerr_logger := True\<rparr>)))
        (snd (Next, emit Signal_SIGINT
          (u'\<lparr>loggers := loggers u' @ [Cerr_logger], global_cerr_logger := True\<rparr>)))"
      by (simp add: agree_def)
  qed
  with a show "fst (if count options ''verbose'' then
            seq (try_call (logger_new (E\<lparr>getpid := p\<rparr>) Cerr_logger [])
                  (emit (Logger_new Cerr_logger []) t'))
              (\<lambda>s'. (Next, emit Signal_SIGINT
                 (s'\<lparr>loggers := loggers s' @ [Cerr_logger], global_cerr_logger := True\<rparr>)))
          else (Next, t'))
      = fst (if count options ''verbose'' then
            seq (try_call (logger_new E Cerr_logger []) (emit (Logger_new Cerr_logger []) t))
              (\<lambda>s'. (Next, emit Signal_SIGINT
                 (s'\<lparr>loggers := loggers s' @ [Cerr_logger], global_cerr_logger := True\<rparr>)))
          else (Next, t))
    \<and> agree R (snd (if count options ''verbose'' then
            seq (try_call (logger_new E Cerr_logger []) (emit (Logger_new Cerr_logger []) t))
              (\<lambda>s'. (Next, emit Signal_SIGINT
                 (s'\<lparr>loggers := loggers s' @ [Cerr_logger], global_cerr_logger := True\<rparr>)))
          else (Next, t)))
        (snd (if count options ''verbose'' then
            seq (try_call (logger_new (E\<lparr>getpid := p\<rparr>) Cerr_logger [])
                  (emit (Logger_new Cerr_logger []) t'))
              (\<lambda>s'. (Next, emit Signal_SIGINT
                 (s'\<lparr>loggers := loggers s' @ [Cerr_logger], global_cerr_logger := True\<rparr>)))
          else (Next, t')))"
    by simp
next
  fix t t' :: "('a, 'b) state"
  assume a: "agree R t t'"
  show "fst (if count options ''dump-all-graphs'' then add_logger (E\<lparr>getpid := p\<rparr>) Ast_logger [] t'
            else (Next, t'))
      = fst (if count options ''dump-all-graphs'' then add_logger E Ast_logger [] t else (Next, t))
    \<and> agree R (snd (if count options ''dump-all-graphs'' then add_logger E Ast_logger [] t
                    else (Next, t)))
        (snd (if count options ''dump-all-graphs'' then add_logger (E\<lparr>getpid := p\<rparr>) Ast_logger [] t'
              else (Next, t')))"
    using add_logger_agree [OF l a, of p Ast_logger "[]"] a by simp
qed

lemma prologue_agree:
  assumes "seed_resets E R k" and "agree R s s'"
  shows "fst (prologue (E\<lparr>getpid := p\<rparr>) options s') = fst (prologue E options s)
    \<and> agree R (snd (prologue E options s)) (snd (prologue (E\<lparr>getpid := p\<rparr>) options s'))"
proof -
  from assms(1) have sc: "\<forall>b c. indifferent R (schema_new E b c)"
    and fs: "indifferent R (fill_scope E)"
    and lg: "\<forall>l a. indifferent R (logger_new E l a)"
    by (simp_all add: seed_resets_def)
  show ?thesis
    unfolding prologue_def
  proof (intro seq_agree)
    show "fst (load_schema (E\<lparr>getpid := p\<rparr>) options s') = fst (load_schema E options s)
      \<and> agree R (snd (load_schema E options s)) (snd (load_schema (E\<lparr>getpid := p\<rparr>) options s'))"
      using sc assms(2) by (rule load_schema_agree)
  next
    fix t t' :: "('a, 'b) state"
    assume "agree R t t'"
    then have "agree R (emit Fill_scope (t\<lparr>queries_generated := 0\<rparr>))
        (emit Fill_scope (t'\<lparr>queries_generated := 0\<rparr>))"
      by (simp add: agree_def)
    from agree_try_call [OF fs this]
    show "fst (try_call (fill_scope (E\<lparr>getpid := p\<rparr>)) (emit Fill_scope (t'\<lparr>queries_generated := 0\<rparr>)))
        = fst (try_call (fill_scope E) (emit Fill_scope (t\<lparr>queries_generated := 0\<rparr>)))
      \<and> agree R (snd (try_call (fill_scope E) (emit Fill_scope (t\<lparr>queries_generated := 0\<rparr>))))
          (snd (try_call (fill_scope (E\<lparr>getpid := p\<rparr>))
            (emit Fill_scope (t'\<lparr>queries_generated := 0\<rparr>))))"
      by simp
  next
    fix t t' :: "('a, 'b) state"
    assume "agree R t t'"
    with lg show "fst (make_loggers (E\<lparr>getpid := p\<rparr>) options t') = fst (make_loggers E options t)
      \<and> agree R (snd (make_loggers E options t)) (snd (make_loggers (E\<lparr>getpid := p\<rparr>) options t'))"
      by (rule make_loggers_agree)
  qed
qed

lemma seeded_agree:
  assumes "seed_resets E R k" and "agree R s s'"
  shows "seeded E k s' = seeded E k s"
proof -
  from assms have "rng_seed E k (world s) = rng_seed E k (world s')"
    by (simp add: seed_resets_def agree_def)
  then have "rng_seed E k (world s') = rng_seed E k (world s)" by simp
  with assms(2) show ?thesis
    by (intro state.equality) (simp_all add: seeded_def agree_def)
qed

lemma seed_rng_seeded:
  assumes "count options ''seed'' \<longrightarrow> stoi (opt options ''seed'') = Inr k"
    and "\<not> count options ''seed'' \<longrightarrow> k = getpid E"
  shows "seed_rng E options s = (Next, seeded E k s)"
  using assms by (simp add: seed_rng_def seeded_def)

lemma main_body_seeded:
  assumes "count options ''seed'' \<longrightarrow> stoi (opt options ''seed'') = Inr k"
    and "\<not> count options ''seed'' \<longrightarrow> k = getpid E"
    and "fst (prologue E options s) = Next"
  shows "main_body fuel E options s
    = (if count options ''dry-run''
       then dry_run fuel E options (seeded E k (snd (prologue E options s)))
       else seq (make_dut E options (seeded E k (snd (prologue E options s))))
              (\<lambda>s5. run_loop fuel E options
                 (emit (Open_file Allqueries) (emit (Open_file Qrylog) s5))))"
proof -
  have "startup E options s = (Next, seeded E k (snd (prologue E options s)))"
    using assms(3) seed_rng_seeded [OF assms(1,2)] by (simp add: startup_def seq_cases)
  then show ?thesis by (simp add: main_body_def)
qed

lemma main_body_agree:
  assumes s: "count options ''seed''" and k: "stoi (opt options ''seed'') = Inr k"
    and r: "seed_resets E R k" and a: "agree R s s'"
  shows "fst (main_body fuel (E\<lparr>getpid := p\<rparr>) options s') = fst (main_body fuel E options s)
    \<and> trace (snd (main_body fuel (E\<lparr>getpid := p\<rparr>) options s'))
        = trace (snd (main_body fuel E options s))"
proof -
  let ?E = "E\<lparr>getpid := p\<rparr>"
  note pa = prologue_agree [OF r a, of p options]
  show ?thesis
  proof (cases "fst (prologue E options s) = Next")
    case True
    with pa have True': "fst (prologue ?E options s') = Next" by simp
    have h1: "count options ''seed'' \<longrightarrow> stoi (opt options ''seed'') = Inr k"
      and h2: "\<not> count options ''seed'' \<longrightarrow> k = getpid E"
      and h2': "\<not> count options ''seed'' \<longrightarrow> k = getpid ?E"
      using s k by simp_all
    from pa have "seeded E k (snd (prologue ?E options s')) = seeded E k (snd (prologue E options s))"
      using seeded_agree [OF r] by blast
    moreover have "seeded ?E k t = seeded E k t" for t :: "('a, 'b) state"
      by (simp add: seeded_def)
    ultimately have "main_body fuel ?E options s' = main_body fuel E options s"
      unfolding main_body_seeded [OF h1 h2 True] main_body_seeded [OF h1 h2' True']
      by simp
    then show ?thesis by simp
  next
    case False
    with pa have False': "fst (prologue ?E options s') \<noteq> Next" by simp
    from False have "main_body fuel E options s = prologue E options s"
      by (simp add: main_body_def startup_def seq_cases split: flow.splits)
    moreover from False' have "main_body fuel ?E options s' = prologue ?E options s'"
      by (simp add: main_body_def startup_def seq_cases split: flow.splits)
    ultimately show ?thesis using pa by (simp add: agree_def)
  qed
qed

text \<open>
  C10. The random generator is seeded with the integer that \<^verbatim>\<open>stoi\<close> reads from the value of
  the option \<^verbatim>\<open>seed\<close> when that option is given, and with the process identifier otherwise.
  The seeding is the last step before the loops: when schema, scope and loggers are set up,
  the dry run, or the construction of the device under test and then the run loop, start
  in the world that seeding with that integer has left, and every statement of the trace
  follows the seeding. A run with the option does not depend on the process identifier;
  and when seeding resets the generator, two such runs with the same seed generate the same
  statements and end in the same way, whatever the state of the generator was before and
  whatever process they run in.
\<close>

theorem seed_selection:
  assumes "count options ''seed'' \<longrightarrow> stoi (opt options ''seed'') = Inr k"
    and "\<not> count options ''seed'' \<longrightarrow> k = getpid E"
  shows "seed_rng E options s = (Next, emit (Rng_seed k) (s\<lparr>world := rng_seed E k (world s)\<rparr>))
    \<and> (fst (prologue E options s0) = Next \<longrightarrow>
          main_body fuel E options s0
            = (if count options ''dry-run''
               then dry_run fuel E options (seeded E k (snd (prologue E options s0)))
               else seq (make_dut E options (seeded E k (snd (prologue E options s0))))
                      (\<lambda>s5. run_loop fuel E options
                         (emit (Open_file Allqueries) (emit (Open_file Qrylog) s5)))))
    \<and> (\<exists>ps. filter (\<lambda>ev. is_Rng_seed ev \<or> is_Statement ev)
              (trace (snd (main_body fuel E options s0)))
          = filter (\<lambda>ev. is_Rng_seed ev \<or> is_Statement ev) (trace s0)
            @ (if fst (startup E options s0) = Next then Rng_seed k # map Statement ps else []))
    \<and> (count options ''seed'' \<longrightarrow>
          main_body fuel (E\<lparr>getpid := pid\<rparr>) options s0 = main_body fuel E options s0)
    \<and> (count options ''seed'' \<and> seed_resets E R k \<and> agree R s0 s0' \<longrightarrow>
          fst (main_body fuel (E\<lparr>getpid := pid\<rparr>) options s0') = fst (main_body fuel E options s0)
          \<and> trace (snd (main_body fuel (E\<lparr>getpid := pid\<rparr>) options s0'))
              = trace (snd (main_body fuel E options s0)))"
proof (intro conjI)
  show "seed_rng E options s = (Next, emit (Rng_seed k) (s\<lparr>world := rng_seed E k (world s)\<rparr>))"
    using assms by (rule seed_rng_seeds)
next
  show "fst (prologue E options s0) = Next \<longrightarrow>
      main_body fuel E options s0
        = (if count options ''dry-run''
           then dry_run fuel E options (seeded E k (snd (prologue E options s0)))
           else seq (make_dut E options (seeded E k (snd (prologue E options s0))))
                  (\<lambda>s5. run_loop fuel E options
                     (emit (Open_file Allqueries) (emit (Open_file Qrylog) s5))))"
    using main_body_seeded [OF assms] by blast
next
  show "count options ''seed'' \<and> seed_resets E R k \<and> agree R s0 s0' \<longrightarrow>
      fst (main_body fuel (E\<lparr>getpid := pid\<rparr>) options s0') = fst (main_body fuel E options s0)
      \<and> trace (snd (main_body fuel (E\<lparr>getpid := pid\<rparr>) options s0'))
          = trace (snd (main_body fuel E options s0))"
    using main_body_agree [of options k E R s0 s0' fuel pid] assms(1) by blast
next
  show "count options ''seed'' \<longrightarrow>
      main_body fuel (E\<lparr>getpid := pid\<rparr>) options s0 = main_body fuel E options s0"
    by (simp add: main_body_getpid)
next
  let ?Q = "\<lambda>ev :: 'b event. is_Rng_seed ev \<or> is_Statement ev"
  let ?s4 = "snd (startup E options s0)"
  note t4 = startup_seeded [OF assms, of s0]
  show "\<exists>ps. filter ?Q (trace (snd (main_body fuel E options s0)))
      = filter ?Q (trace s0)
        @ (if fst (startup E options s0) = Next then Rng_seed k # map Statement ps else [])"
  proof (cases "fst (startup E options s0) = Next")
    case False
    then have "main_body fuel E options s0 = startup E options s0"
      by (simp add: main_body_def seq_cases split: flow.splits)
    with t4 False show ?thesis by simp
  next
    case True
    have *: "\<exists>ps. filter ?Q (trace (snd (main_body fuel E options s0)))
        = filter ?Q (trace ?s4) @ map Statement ps"
    proof (cases "count options ''dry-run''")
      case dry: True
      from main_body_dry [OF True dry, of fuel]
        grows_statements [OF grows_dry_run [where s = ?s4 and k = fuel and E = E and options = options]]
      show ?thesis by simp
    next
      case nodry: False
      let ?r5 = "make_dut E options ?s4"
      have t5: "filter ?Q (trace (snd ?r5)) = filter ?Q (trace ?s4)" by (rule make_dut_quiet)
      show ?thesis
      proof (cases "fst ?r5 = Next")
        case dut: True
        let ?s5 = "emit (Open_file Allqueries) (emit (Open_file Qrylog) (snd ?r5))"
        have "filter ?Q (trace ?s5) = filter ?Q (trace ?s4)" using t5 by simp
        with main_body_loop [OF True nodry dut, of fuel]
          grows_statements [OF grows_run_loop [where s = ?s5 and k = fuel and E = E and options = options]]
        show ?thesis by simp
      next
        case nodut: False
        with True nodry have "main_body fuel E options s0 = ?r5"
          by (simp add: main_body_def seq_cases split: flow.splits)
        with t5 have "filter ?Q (trace (snd (main_body fuel E options s0)))
            = filter ?Q (trace ?s4) @ map Statement []"
          by simp
        then show ?thesis ..
      qed
    qed
    with t4 True show ?thesis by simp
  qed
qed

lemma stoi_3: "stoi ''3'' = Inr 3"
  by code_simp

text \<open>
  A run of the theorem: with \<^verbatim>\<open>--seed=3\<close>, a process with another identifier that starts with a
  generator used before generates the statements of the first run.
\<close>

theorem seed_selection_witness:
  "seed_rng demo_env [''seed'' \<mapsto> ''3''] (demo_state [])
      = (Next, emit (Rng_seed 3)
          ((demo_state [])\<lparr>world := rng_seed demo_env 3 (world (demo_state []))\<rparr>))
   \<and> main_body 4 (demo_env\<lparr>getpid := 4242\<rparr>) [''seed'' \<mapsto> ''3''] (init_state (demo_world []))
      = main_body 4 demo_env [''seed'' \<mapsto> ''3''] (init_state (demo_world []))
   \<and> seed_rng demo_env Map.empty (demo_state [])
      = (Next, emit (Rng_seed 7)
          ((demo_state [])\<lparr>world := rng_seed demo_env 7 (world (demo_state []))\<rparr>))
   \<and> main_body 4 demo_env [''seed'' \<mapsto> ''3''] (init_state (demo_world []))
      = seq (make_dut demo_env [''seed'' \<mapsto> ''3'']
               (seeded demo_env 3
                  (snd (prologue demo_env [''seed'' \<mapsto> ''3''] (init_state (demo_world []))))))
          (\<lambda>s5. run_loop 4 demo_env [''seed'' \<mapsto> ''3'']
             (emit (Open_file Allqueries) (emit (Open_file Qrylog) s5)))
   \<and> fst (main_body 4 (demo_env\<lparr>getpid := 4242\<rparr>) [''seed'' \<mapsto> ''3''] (init_state used_world))
      = Running
   \<and> filter is_Statement
        (trace (snd (main_body 4 (demo_env\<lparr>getpid := 4242\<rparr>) [''seed'' \<mapsto> ''3'']
           (init_state used_world))))
      = [Statement 3, Statement 4, Statement 5, Statement 6]"
proof -
  let ?o = "[''seed'' \<mapsto> ''3'']"
  let ?s0 = "init_state (demo_world []) :: (demo_world, nat) state"
  let ?s0' = "init_state used_world :: (demo_world, nat) state"
  have h1: "count ?o ''seed'' \<longrightarrow> stoi (opt ?o ''seed'') = Inr 3"
    by (simp add: stoi_3)
  have h2: "\<not> count ?o ''seed'' \<longrightarrow> 3 = getpid demo_env"
    by simp
  have h3: "count Map.empty ''seed'' \<longrightarrow> stoi (opt Map.empty ''seed'') = Inr 7"
    by simp
  have h4: "\<not> count Map.empty ''seed'' \<longrightarrow> 7 = getpid demo_env"
    by (simp add: demo_env_def)
  have h5: "fst (prologue demo_env ?o ?s0) = Next" by code_simp
  have h6: "seed_resets demo_env same_but_generator 3"
    by (auto simp: seed_resets_def indifferent_def same_but_generator_def demo_env_def
        intro: demo_world.equality)
  have h7: "agree same_but_generator ?s0 ?s0'"
    by (simp add: agree_def init_state_def demo_world_def used_world_def same_but_generator_def)
  have h8: "count ?o ''seed''" by simp
  let ?r = "run_loop 4 demo_env ?o
      (emit (Open_file Allqueries) (emit (Open_file Qrylog)
        (snd (make_dut demo_env ?o (snd (startup demo_env ?o ?s0))))))"
  have s: "fst (startup demo_env ?o ?s0) = Next" by code_simp
  have d: "fst (make_dut demo_env ?o (snd (startup demo_env ?o ?s0))) = Next" by code_simp
  from main_body_loop [OF s _ d, of 4]
  have m: "main_body 4 demo_env ?o ?s0 = ?r" by simp
  have e: "fst ?r = Running
      \<and> filter is_Statement (trace (snd ?r)) = [Statement 3, Statement 4, Statement 5, Statement 6]"
    by code_simp
  note a = seed_selection [OF h1 h2, of "demo_state []" ?s0 4 4242 same_but_generator ?s0']
  note b = seed_selection [OF h3 h4, of "demo_state []" ?s0 4 4242 same_but_generator ?s0']
  from a have 1: "seed_rng demo_env ?o (demo_state [])
      = (Next, emit (Rng_seed 3)
          ((demo_state [])\<lparr>world := rng_seed demo_env 3 (world (demo_state []))\<rparr>))"
    by blast
  from a h8 have 2: "main_body 4 (demo_env\<lparr>getpid := 4242\<rparr>) ?o ?s0 = main_body 4 demo_env ?o ?s0"
    by blast
  from b have 3: "seed_rng demo_env Map.empty (demo_state [])
      = (Next, emit (Rng_seed 7)
          ((demo_state [])\<lparr>world := rng_seed demo_env 7 (world (demo_state []))\<rparr>))"
    by blast
  from a h5 have 4: "main_body 4 demo_env ?o ?s0
      = seq (make_dut demo_env ?o (seeded demo_env 3 (snd (prologue demo_env ?o ?s0))))
          (\<lambda>s5. run_loop 4 demo_env ?o
             (emit (Open_file Allqueries) (emit (Open_file Qrylog) s5)))"
    by simp
  from a h6 h7 h8
  have "fst (main_body 4 (demo_env\<lparr>getpid := 4242\<rparr>) ?o ?s0') = fst (main_body 4 demo_env ?o ?s0)
    \<and> trace (snd (main_body 4 (demo_env\<lparr>getpid := 4242\<rparr>) ?o ?s0'))
        = trace (snd (main_body 4 demo_env ?o ?s0))"
    by blast
  with m e have 5: "fst (main_body 4 (demo_env\<lparr>getpid := 4242\<rparr>) ?o ?s0') = Running
    \<and> filter is_Statement (trace (snd (main_body 4 (demo_env\<lparr>getpid := 4242\<rparr>) ?o ?s0')))
        = [Statement 3, Statement 4, Statement 5, Statement 6]"
    by simp
  from 1 2 3 4 5 show ?thesis by blast
qed

text \<open>
  Without the option the process identifier decides what is generated: in this environment
  the processes 7 and 8 generate different statements.
\<close>

lemma default_seed_differs:
  "filter is_Statement
      (trace (snd (main_body 2 demo_env Map.empty (init_state (demo_world [])))))
    = [Statement 7, Statement 8]
   \<and> filter is_Statement
      (trace (snd (main_body 2 (demo_env\<lparr>getpid := 8\<rparr>) Map.empty (init_state (demo_world [])))))
    = [Statement 8, Statement 9]"
proof -
  let ?s0 = "init_state (demo_world []) :: (demo_world, nat) state"
  have r: "filter is_Statement (trace (snd (main_body 2 E Map.empty ?s0)))
      = filter is_Statement (trace (snd (run_loop 2 E Map.empty
          (emit (Open_file Allqueries) (emit (Open_file Qrylog)
            (snd (make_dut E Map.empty (snd (startup E Map.empty ?s0)))))))))"
    if "fst (startup E Map.empty ?s0) = Next"
      and "fst (make_dut E Map.empty (snd (startup E Map.empty ?s0))) = Next"
    for E :: "(demo_world, nat) env"
    using main_body_loop [OF that(1) _ that(2), of 2] by simp
  have s: "fst (startup demo_env Map.empty ?s0) = Next" by code_simp
  have d: "fst (make_dut demo_env Map.empty (snd (startup demo_env Map.empty ?s0))) = Next"
    by code_simp
  have s': "fst (startup (demo_env\<lparr>getpid := 8\<rparr>) Map.empty ?s0) = Next" by code_simp
  have d': "fst (make_dut (demo_env\<lparr>getpid := 8\<rparr>) Map.empty
      (snd (startup (demo_env\<lparr>getpid := 8\<rparr>) Map.empty ?s0))) = Next"
    by code_simp
  have 1: "filter is_Statement (trace (snd (run_loop 2 demo_env Map.empty
      (emit (Open_file Allqueries) (emit (Open_file Qrylog)
        (snd (make_dut demo_env Map.empty (snd (startup demo_env Map.empty ?s0))))))))) 
    = [Statement 7, Statement 8]"
    by code_simp
  have 2: "filter is_Statement (trace (snd (run_loop 2 (demo_env\<lparr>getpid := 8\<rparr>) Map.empty
      (emit (Open_file Allqueries) (emit (Open_file Qrylog)
        (snd (make_dut (demo_env\<lparr>getpid := 8\<rparr>) Map.empty
          (snd (startup (demo_env\<lparr>getpid := 8\<rparr>) Map.empty ?s0)))))))))
    = [Statement 8, Statement 9]"
    by code_simp
  from r [OF s d] r [OF s' d'] 1 2 show ?thesis by simp
qed


subsection \<open>The dry run\<close>

lemma stol_range: "stol t = Inr n \<Longrightarrow> LONG_MIN \<le> n \<and> n \<le> LONG_MAX"
  by (auto simp: stol_def split: option.splits if_splits)

text \<open>What one pass of the dry run does when the factory and the hooks return.\<close>

lemma dry_iteration_prints:
  assumes "factory_returns E" and "generated_returns E (loggers s)"
    and "count options ''max-queries''" and "stol (opt options ''max-queries'') = Inr n"
    and "queries_generated s < n"
  shows "\<exists>gen. fst (dry_iteration E options s)
        = (if n \<le> queries_generated s + 1 then Return 0 else Next)
    \<and> trace (snd (dry_iteration E options s))
        = trace s @ Statement gen # Cout (out E gen) # map (\<lambda>l. Generated l gen) (loggers s)
            @ [Cout ('';'' @ endl)]
    \<and> queries_generated (snd (dry_iteration E options s)) = queries_generated s + 1
    \<and> loggers (snd (dry_iteration E options s)) = loggers s"
proof -
  from assms(1) obtain gen where f: "fst (statement_factory E (world s)) = Inr gen"
    by (auto simp: factory_returns_def)
  let ?s = "emit (Cout (out E gen)) (emit (Statement gen)
    (s\<lparr>world := snd (statement_factory E (world s))\<rparr>))"
  let ?n = "notify_generated E (loggers s) gen ?s"
  from assms(2) have "\<forall>l \<in> set (loggers s). \<forall>w. fst (generated E l gen w) = None"
    by (simp add: generated_returns_def)
  from notify_generated_returns [OF this, of ?s]
  have n: "fst ?n = None"
    and t: "trace (snd ?n)
      = trace s @ Statement gen # Cout (out E gen) # map (\<lambda>l. Generated l gen) (loggers s)"
    by simp_all
  have q: "queries_generated (snd ?n) = queries_generated s" by simp
  have l: "loggers (snd ?n) = loggers s"
    using grows_loggers [OF grows_notify_generated [of ?s E "loggers s" gen]] by simp
  from assms(4,5) have m: "queries_generated s \<noteq> LONG_MAX"
    using stol_range [of "opt options ''max-queries''" n] by simp
  from f n t q l m assms(3,4)
  have "fst (dry_iteration E options s)
        = (if n \<le> queries_generated s + 1 then Return 0 else Next)
    \<and> trace (snd (dry_iteration E options s))
        = trace s @ Statement gen # Cout (out E gen) # map (\<lambda>l. Generated l gen) (loggers s)
            @ [Cout ('';'' @ endl)]
    \<and> queries_generated (snd (dry_iteration E options s)) = queries_generated s + 1
    \<and> loggers (snd (dry_iteration E options s)) = loggers s"
    by (simp add: dry_iteration_def case_prod_beta Let_def)
  then show ?thesis ..
qed

text \<open>
  With a ceiling \<open>n\<close> of at least one the dry run prints \<open>n\<close> statements and returns 0; it
  tests nothing.
\<close>

lemma dry_run_prints:
  assumes "factory_returns E" and "generated_returns E (loggers s)"
    and "count options ''max-queries''" and "stol (opt options ''max-queries'') = Inr n"
    and "queries_generated s < n" and "j = nat (n - queries_generated s)"
  shows "fst (dry_run (j + k) E options s) = Return 0
    \<and> length (filter is_Statement (trace (snd (dry_run (j + k) E options s))))
        = length (filter is_Statement (trace s)) + j
    \<and> filter is_Test (trace (snd (dry_run (j + k) E options s))) = filter is_Test (trace s)"
  using assms(2,5,6)
proof (induction j arbitrary: s)
  case 0
  then show ?case by simp
next
  case (Suc j)
  let ?it = "dry_iteration E options s"
  from dry_iteration_prints [OF assms(1) Suc.prems(1) assms(3,4) Suc.prems(2)]
  obtain gen where r: "fst ?it = (if n \<le> queries_generated s + 1 then Return 0 else Next)"
    and t: "trace (snd ?it)
        = trace s @ Statement gen # Cout (out E gen) # map (\<lambda>l. Generated l gen) (loggers s)
            @ [Cout ('';'' @ endl)]"
    and q: "queries_generated (snd ?it) = queries_generated s + 1"
    and l: "loggers (snd ?it) = loggers s"
    by blast
  from t have st: "length (filter is_Statement (trace (snd ?it)))
      = length (filter is_Statement (trace s)) + 1"
    and te: "filter is_Test (trace (snd ?it)) = filter is_Test (trace s)"
    by (simp_all add: filter_map_none)
  show ?case
  proof (cases "n \<le> queries_generated s + 1")
    case True
    with Suc.prems(2,3) have "j = 0" by simp
    moreover from True r have "dry_run (Suc 0 + k) E options s = ?it"
      by (cases ?it) simp
    ultimately show ?thesis using True r st te by simp
  next
    case False
    with r have "dry_run (Suc j + k) E options s = dry_run (j + k) E options (snd ?it)"
      by (cases ?it) simp
    moreover from False Suc.prems(3) q
    have "queries_generated (snd ?it) < n" "j = nat (n - queries_generated (snd ?it))"
      by simp_all
    ultimately show ?thesis
      using Suc.IH [of "snd ?it"] Suc.prems(1) l st te by simp
  qed
qed

text \<open>In a dry run no device under test is constructed.\<close>

lemma startup_event_no_dut: "startup_event ev \<Longrightarrow> \<not> is_Dut_new ev"
  by (cases ev) simp_all

lemma main_body_dry_no_dut:
  assumes "count options ''dry-run''"
  shows "filter is_Dut_new (trace (snd (main_body fuel E options s))) = filter is_Dut_new (trace s)"
proof -
  have st: "filter is_Dut_new (trace (snd (startup E options s))) = filter is_Dut_new (trace s)"
    by (rule startup_quiet) (simp_all add: startup_event_no_dut)
  show ?thesis
  proof (cases "fst (startup E options s) = Next")
    case True
    have "filter is_Dut_new (trace (snd (dry_run fuel E options (snd (startup E options s)))))
        = filter is_Dut_new (trace (snd (startup E options s)))"
      using grows_dry_run loop_event_no_dut by (rule grows_filter)
    with main_body_dry [OF True assms, of fuel] st show ?thesis by simp
  next
    case False
    then have "main_body fuel E options s = startup E options s"
      by (simp add: main_body_def seq_cases split: flow.splits)
    with st show ?thesis by simp
  qed
qed

text \<open>
  C8. The dry run prints statements without constructing the device under test, but its
  ceiling is off by one at zero: the counter is compared with the ceiling only after a
  statement has been printed. With \<^verbatim>\<open>--dry-run --max-queries=0\<close> the program prints one
  statement and returns 0, where the run loop with the same ceiling generates none.
\<close>

theorem dry_run_zero_ceiling:
  "fst (main 5 demo_env [''--dry-run'', ''--max-queries=0''] (demo_world [])) = Return 0
   \<and> queries_generated (snd (main 5 demo_env [''--dry-run'', ''--max-queries=0''] (demo_world [])))
      = 1
   \<and> trace (snd (main 5 demo_env [''--dry-run'', ''--max-queries=0''] (demo_world [])))
      = [Cerr (''sqlsmith unknown'' @ endl), Cout (''=====:  :======'' @ endl),
         Schema_new Postgres [], Fill_scope, Logger_new Impedance_feedback [], Rng_seed 7,
         Statement 7, Cout ''select 1111111'', Generated Impedance_feedback 7,
         Cout ('';'' @ endl)]
   \<and> run_loop 5 demo_env [''max-queries'' \<mapsto> ''0''] (demo_state [])
      = (Return 0, (demo_state [])\<lparr>queries_generated := 1\<rparr>)"
proof -
  let ?o = "[''dry-run'' \<mapsto> [], ''max-queries'' \<mapsto> ''0'']"
  let ?s0 = "emit (Cerr (package_name demo_env @ '' '' @ gitrev demo_env @ endl))
    (init_state (demo_world [])) :: (demo_world, nat) state"
  let ?r = "catch_exception (dry_run 5 demo_env ?o (snd (startup demo_env ?o ?s0)))"
  have p: "parse_options [''--dry-run'', ''--max-queries=0''] Map.empty ?s0 = (?o, ?s0)"
    by (simp add: regex_match_opt_def option_names_def)
  have s: "fst (startup demo_env ?o ?s0) = Next" by code_simp
  have "main 5 demo_env [''--dry-run'', ''--max-queries=0''] (demo_world [])
      = catch_exception (main_body 5 demo_env ?o ?s0)"
    by (rule main_options [OF p]) simp_all
  with main_body_dry [OF s, of 5]
  have m: "main 5 demo_env [''--dry-run'', ''--max-queries=0''] (demo_world []) = ?r"
    by simp
  have 1: "fst ?r = Return 0 \<and> queries_generated (snd ?r) = 1
      \<and> trace (snd ?r)
        = [Cerr (''sqlsmith unknown'' @ endl), Cout (''=====:  :======'' @ endl),
           Schema_new Postgres [], Fill_scope, Logger_new Impedance_feedback [], Rng_seed 7,
           Statement 7, Cout ''select 1111111'', Generated Impedance_feedback 7,
           Cout ('';'' @ endl)]"
    by code_simp
  have 2: "run_loop 5 demo_env [''max-queries'' \<mapsto> ''0''] (demo_state [])
      = (Return 0, (demo_state [])\<lparr>queries_generated := 1\<rparr>)"
    by code_simp
  from 1 2 show ?thesis unfolding m by blast
qed

end
